theory Spec2Isabelle
  imports Complex_Main
begin

section \<open>Python values\<close>

text \<open>
  The judge tester of \<^verbatim>\<open>src/ollama_benchmark/judge/tester.py\<close> handles values that come
  from JSON documents, from the inference client and from the question repository. They are
  modelled by one datatype of Python values. Dictionary keys are strings (JSON keys and the
  literal keys of the source); a dictionary is an association list in insertion order.
  A float is the real number it denotes, or one of the three special values; rounding is not
  modelled.
\<close>

datatype pyfloat = Fin real | NaN | Inf bool

datatype pyval =
    PNone
  | PBool bool
  | PInt int
  | PFloat pyfloat
  | PStr string
  | PList "pyval list"
  | PTuple "pyval list"
  | PDict "(string \<times> pyval) list"

text \<open>A readable file object (\<^verbatim>\<open>system_prompt\<close>, \<^verbatim>\<open>load_messages\<close>), known by its name.\<close>

datatype pyfile = PyFile string

datatype exn =
    AttributeError
  | TypeError
  | KeyError
  | IndexError
  | ValueError
  | JSONDecodeError string
  | ConfigurationError string
  | ExternalError string

text \<open>Truth value testing, as \<^verbatim>\<open>if x:\<close> and \<^verbatim>\<open>while x:\<close> do it.\<close>

fun truthy :: "pyval \<Rightarrow> bool" where
  "truthy PNone = False"
| "truthy (PBool b) = b"
| "truthy (PInt i) = (i \<noteq> 0)"
| "truthy (PFloat (Fin r)) = (r \<noteq> 0)"
| "truthy (PFloat NaN) = True"
| "truthy (PFloat (Inf s)) = True"
| "truthy (PStr s) = (s \<noteq> [])"
| "truthy (PList xs) = (xs \<noteq> [])"
| "truthy (PTuple xs) = (xs \<noteq> [])"
| "truthy (PDict kvs) = (kvs \<noteq> [])"

text \<open>
  Indexing a sequence with an integer: negative indices count from the end, an index out of
  range raises \<^verbatim>\<open>IndexError\<close>.
\<close>

definition seq_index :: "'a list \<Rightarrow> int \<Rightarrow> exn + 'a" where
  "seq_index xs i =
     (if 0 \<le> i \<and> i < int (length xs) then Inr (xs ! nat i)
      else if i < 0 \<and> - int (length xs) \<le> i then Inr (xs ! nat (int (length xs) + i))
      else Inl IndexError)"

fun hashable :: "pyval \<Rightarrow> bool" where
  "hashable (PList xs) = False"
| "hashable (PDict kvs) = False"
| "hashable (PTuple xs) = list_all hashable xs"
| "hashable v = True"

text \<open>
  \<^verbatim>\<open>obj[key]\<close>. A \<^verbatim>\<open>bool\<close> is an \<^verbatim>\<open>int\<close> in Python, so it indexes a sequence as 0 or 1.
  A dictionary of this model has string keys only: any other hashable key is absent, an
  unhashable one is a \<^verbatim>\<open>TypeError\<close>.
\<close>

fun index_key :: "pyval \<Rightarrow> int option" where
  "index_key (PInt i) = Some i"
| "index_key (PBool b) = Some (if b then 1 else 0)"
| "index_key v = None"

fun subscript :: "pyval \<Rightarrow> pyval \<Rightarrow> exn + pyval" where
  "subscript (PList xs) k =
     (case index_key k of None \<Rightarrow> Inl TypeError | Some i \<Rightarrow> seq_index xs i)"
| "subscript (PTuple xs) k =
     (case index_key k of None \<Rightarrow> Inl TypeError | Some i \<Rightarrow> seq_index xs i)"
| "subscript (PStr s) k =
     (case index_key k of None \<Rightarrow> Inl TypeError
      | Some i \<Rightarrow> (case seq_index s i of Inl e \<Rightarrow> Inl e | Inr c \<Rightarrow> Inr (PStr [c])))"
| "subscript (PDict kvs) k =
     (case k of
        PStr s \<Rightarrow> (case map_of kvs s of None \<Rightarrow> Inl KeyError | Some v \<Rightarrow> Inr v)
      | _ \<Rightarrow> if hashable k then Inl KeyError else Inl TypeError)"
| "subscript v k = Inl TypeError"

text \<open>
  \<^verbatim>\<open>obj[::]\<close>: a new list with the same elements for a list; a tuple or a string is
  immutable and the slice is equal to it; nothing else can be sliced (the exception raised
  for a dictionary is \<^verbatim>\<open>TypeError\<close> up to Python 3.11).
\<close>

fun slice_all :: "pyval \<Rightarrow> exn + pyval" where
  "slice_all (PList xs) = Inr (PList xs)"
| "slice_all (PTuple xs) = Inr (PTuple xs)"
| "slice_all (PStr s) = Inr (PStr s)"
| "slice_all v = Inl TypeError"

text \<open>\<^verbatim>\<open>xs[:m]\<close> on a list: a negative bound counts from the end.\<close>

definition slice_to :: "'a list \<Rightarrow> int \<Rightarrow> 'a list" where
  "slice_to xs m =
     (if m < 0 then take (nat (int (length xs) + m)) xs else take (nat m) xs)"

text \<open>\<^verbatim>\<open>d[k] = v\<close> on a dictionary: an existing key keeps its place.\<close>

fun dict_set :: "(string \<times> pyval) list \<Rightarrow> string \<Rightarrow> pyval \<Rightarrow> (string \<times> pyval) list" where
  "dict_set [] k v = [(k, v)]"
| "dict_set ((k', v') # kvs) k v =
     (if k' = k then (k, v) # kvs else (k', v') # dict_set kvs k v)"

text \<open>\<^verbatim>\<open>text in s\<close> on strings: \<^verbatim>\<open>text\<close> occurs in \<^verbatim>\<open>s\<close> as a contiguous run.\<close>

fun is_prefix :: "string \<Rightarrow> string \<Rightarrow> bool" where
  "is_prefix [] s = True"
| "is_prefix (c # cs) [] = False"
| "is_prefix (c # cs) (d # ds) = (c = d \<and> is_prefix cs ds)"

fun str_contains :: "string \<Rightarrow> string \<Rightarrow> bool" where
  "str_contains [] text = (text = [])"
| "str_contains (c # cs) text = (is_prefix text (c # cs) \<or> str_contains cs text)"

section \<open>The outside world\<close>

text \<open>
  The tester talks to collaborators that are not part of it: the inference client
  (\<^verbatim>\<open>chat\<close>, \<^verbatim>\<open>unload\<close>), the question repository (\<^verbatim>\<open>utils.DataManager\<close>), file
  objects, the clock and the logger. Every call is recorded, with its arguments and what it
  returned or raised, in a trace. What a call returns is a function of the trace so far and
  of the arguments: this covers every behaviour of the collaborators in a sequential run.
  \<^verbatim>\<open>str.format\<close> and \<^verbatim>\<open>json.loads\<close> are functions of their arguments alone.
  A reading of the clock is a real number: the rounding of floating point arithmetic on
  durations is not modelled.
\<close>

datatype loglevel = Debug | Info

datatype event =
    EvChat string "pyval list" pyval "exn + pyval"
  | EvUnload string "exn option"
  | EvDataManager "exn option"
  | EvGetQuestion pyval "exn + pyval"
  | EvGetImages pyval "exn + pyval"
  | EvRead pyfile "exn + string"
  | EvTime real
  | EvLog loglevel string "pyval list"

record env =
  client_chat :: "event list \<Rightarrow> string \<Rightarrow> pyval list \<Rightarrow> pyval \<Rightarrow> exn + pyval"
  client_unload :: "event list \<Rightarrow> string \<Rightarrow> exn option"
  new_data_manager :: "event list \<Rightarrow> exn option"
  dm_get_question :: "event list \<Rightarrow> pyval \<Rightarrow> exn + pyval"
  dm_get_question_b64_images :: "event list \<Rightarrow> pyval \<Rightarrow> exn + pyval"
  fp_read :: "event list \<Rightarrow> pyfile \<Rightarrow> exn + string"
  time_time :: "event list \<Rightarrow> real"
  str_format :: "string \<Rightarrow> (string \<times> pyval) list \<Rightarrow> exn + string"
  json_loads :: "string \<Rightarrow> exn + pyval"

text \<open>
  The state of a run: the trace, the attribute \<^verbatim>\<open>_load_messages\<close> of the tester (absent
  until the first successful load) and the store of the list objects the tester creates.
  A list object is known by its address; \<^verbatim>\<open>next_addr\<close> is the first unused one.
\<close>

record state =
  trace :: "event list"
  loaded :: "pyval option"
  objs :: "nat \<Rightarrow> pyval"
  next_addr :: nat

text \<open>
  A reference to the object a variable is bound to: an object of the store, or the item
  of the loaded document that a key selects.
\<close>

datatype ref = Obj nat | LoadedItem pyval

definition record_event :: "state \<Rightarrow> event \<Rightarrow> state" where
  "record_event st ev = st\<lparr>trace := trace st @ [ev]\<rparr>"

definition do_chat :: "env \<Rightarrow> state \<Rightarrow> string \<Rightarrow> pyval list \<Rightarrow> pyval \<Rightarrow> (exn + pyval) \<times> state" where
  "do_chat w st m msgs opts =
     (let r = client_chat w (trace st) m msgs opts in (r, record_event st (EvChat m msgs opts r)))"

definition do_unload :: "env \<Rightarrow> state \<Rightarrow> string \<Rightarrow> exn option \<times> state" where
  "do_unload w st m =
     (let r = client_unload w (trace st) m in (r, record_event st (EvUnload m r)))"

definition do_data_manager :: "env \<Rightarrow> state \<Rightarrow> exn option \<times> state" where
  "do_data_manager w st =
     (let r = new_data_manager w (trace st) in (r, record_event st (EvDataManager r)))"

definition do_get_question :: "env \<Rightarrow> state \<Rightarrow> pyval \<Rightarrow> (exn + pyval) \<times> state" where
  "do_get_question w st q =
     (let r = dm_get_question w (trace st) q in (r, record_event st (EvGetQuestion q r)))"

definition do_get_images :: "env \<Rightarrow> state \<Rightarrow> pyval \<Rightarrow> (exn + pyval) \<times> state" where
  "do_get_images w st q =
     (let r = dm_get_question_b64_images w (trace st) q
      in (r, record_event st (EvGetImages q r)))"

definition do_read :: "env \<Rightarrow> state \<Rightarrow> pyfile \<Rightarrow> (exn + string) \<times> state" where
  "do_read w st f =
     (let r = fp_read w (trace st) f in (r, record_event st (EvRead f r)))"

definition do_time :: "env \<Rightarrow> state \<Rightarrow> real \<times> state" where
  "do_time w st = (let r = time_time w (trace st) in (r, record_event st (EvTime r)))"

definition do_log :: "state \<Rightarrow> loglevel \<Rightarrow> string \<Rightarrow> pyval list \<Rightarrow> state" where
  "do_log st lvl fmt args = record_event st (EvLog lvl fmt args)"

text \<open>Creating a list object, reading it, and \<^verbatim>\<open>obj.pop(0)\<close>.\<close>

definition alloc :: "state \<Rightarrow> pyval \<Rightarrow> nat \<times> state" where
  "alloc st v =
     (next_addr st, st\<lparr>objs := (objs st)(next_addr st := v), next_addr := Suc (next_addr st)\<rparr>)"

definition obj_pop0 :: "state \<Rightarrow> nat \<Rightarrow> exn + (pyval \<times> state)" where
  "obj_pop0 st a =
     (case objs st a of
        PList [] \<Rightarrow> Inl IndexError
      | PList (x # xs) \<Rightarrow> Inr (x, st\<lparr>objs := (objs st)(a := PList xs)\<rparr>)
      | _ \<Rightarrow> Inl AttributeError)"

text \<open>
  The object a reference denotes. A \<^verbatim>\<open>LoadedItem\<close> is \<^verbatim>\<open>self._load_messages[key]\<close>.
\<close>

definition deref :: "state \<Rightarrow> ref \<Rightarrow> exn + pyval" where
  "deref st r =
     (case r of
        Obj a \<Rightarrow> Inr (objs st a)
      | LoadedItem k \<Rightarrow>
          (case loaded st of None \<Rightarrow> Inl AttributeError | Some doc \<Rightarrow> subscript doc k))"

section \<open>The tester\<close>

text \<open>
  The attributes of a \<^verbatim>\<open>Tester\<close>. \<^verbatim>\<open>model\<close> and \<^verbatim>\<open>ollama_options\<close> are set by the base
  class \<^verbatim>\<open>BaseTester\<close>, \<^verbatim>\<open>client\<close> and \<^verbatim>\<open>logger\<close> are the outside world. The methods
  \<^verbatim>\<open>get_tasks\<close> and \<^verbatim>\<open>get_tasks_kwargs\<close>, which enumerate the runs, are not part of this
  development.
\<close>

record tester =
  model :: string
  ollama_options :: pyval
  judge_model :: string
  system_prompt :: "pyfile option"
  ollama_judge_options :: pyval
  judge_system_prompt :: string
  judge_prompt :: string
  question :: pyval
  max_turns :: int
  load_messages_file :: "pyfile option"

definition nl :: string where
  "nl = [CHR 0x0A]"

definition JUDGE_SYSTEM_PROMPT :: string where
  "JUDGE_SYSTEM_PROMPT = nl
     @ ''You will be given a user_question and system_answer couple.'' @ nl
     @ ''Your task is to provide a '' @ [CHR 0x27] @ ''total rating'' @ [CHR 0x27]
     @ '' scoring how well the system_answer answers the user concerns expressed in the user_question.'' @ nl
     @ ''Give your answer on a scale of 1 to 100, where 1 means that the system_answer is not helpful at all, and 100 means that the system_answer completely and helpfully addresses the user_question.'' @ nl
     @ nl
     @ ''Here is the scale you should use to build your answer:'' @ nl
     @ ''10: The system_answer is terrible: completely irrelevant to the question asked, or very partial'' @ nl
     @ ''30: The system_answer is mostly not helpful: misses some key aspects of the question'' @ nl
     @ ''60: The system_answer is mostly helpful: provides support, but still could be improved'' @ nl
     @ ''90: The system_answer is excellent: relevant, direct, detailed, and addresses all the concerns raised in the question'' @ nl
     @ nl
     @ ''Provide your feedback as JSON as follows with just the result, no other text:'' @ nl
     @ nl
     @ ''{'' @ nl
     @ ''    \"evaluation\": \"(your rationale for the rating, as a text)\",'' @ nl
     @ ''    \"total_rating\": \"(your rating, as a number between 1 and 100)\",'' @ nl
     @ ''    \"feedback\": \"(How you think it could be improved)\",'' @ nl
     @ ''}'' @ nl"

definition JUDGE_PROMPT :: string where
  "JUDGE_PROMPT = nl
     @ ''Now here are the question and answer.'' @ nl
     @ nl
     @ ''Question: {question}'' @ nl
     @ ''Answer: {answer}'' @ nl"

text \<open>\<^verbatim>\<open>x or default\<close> on an optional string: \<^verbatim>\<open>None\<close> and the empty string are false.\<close>

fun str_or :: "string option \<Rightarrow> string \<Rightarrow> string" where
  "str_or None d = d"
| "str_or (Some s) d = (if s = [] then d else s)"

text \<open>
  \<^verbatim>\<open>Tester.__init__\<close>. The first two arguments stand for what \<^verbatim>\<open>BaseTester.__init__\<close>
  stores. The assignment to \<^verbatim>\<open>ollama_judge_options\<close> ends with a comma in the source, so a
  tuple of one element is stored.
\<close>

definition init ::
  "string \<Rightarrow> pyval \<Rightarrow> string \<Rightarrow> pyfile option \<Rightarrow> string option \<Rightarrow> string option \<Rightarrow> pyval
     \<Rightarrow> pyval \<Rightarrow> int \<Rightarrow> pyfile option \<Rightarrow> tester" where
  "init base_model base_options judge_model_arg system_prompt_arg judge_system_prompt_arg
        judge_prompt_arg ollama_judge_options_arg question_arg max_turns_arg load_messages_arg =
     \<lparr> model = base_model,
       ollama_options = base_options,
       judge_model = judge_model_arg,
       system_prompt = system_prompt_arg,
       ollama_judge_options = PTuple [ollama_judge_options_arg],
       judge_system_prompt = str_or judge_system_prompt_arg JUDGE_SYSTEM_PROMPT,
       judge_prompt = str_or judge_prompt_arg JUDGE_PROMPT,
       question = question_arg,
       max_turns = max_turns_arg,
       load_messages_file = load_messages_arg \<rparr>"

text \<open>
  \<^verbatim>\<open>json.load(fp)\<close> is \<^verbatim>\<open>json.loads(fp.read())\<close>; \<^verbatim>\<open>None\<close> has no attribute \<^verbatim>\<open>read\<close>.
\<close>

definition json_load :: "env \<Rightarrow> pyfile option \<Rightarrow> state \<Rightarrow> (exn + pyval) \<times> state" where
  "json_load w fp st =
     (case fp of
        None \<Rightarrow> (Inl AttributeError, st)
      | Some f \<Rightarrow>
          (case do_read w st f of
             (Inl e, st1) \<Rightarrow> (Inl e, st1)
           | (Inr s, st1) \<Rightarrow> (json_loads w s, st1)))"

text \<open>The property \<^verbatim>\<open>Tester.load_messages\<close>.\<close>

definition load_messages :: "env \<Rightarrow> tester \<Rightarrow> state \<Rightarrow> (exn + pyval) \<times> state" where
  "load_messages w t st =
     (case loaded st of
        Some doc \<Rightarrow> (Inr doc, st)
      | None \<Rightarrow>
          (case json_load w (load_messages_file t) st of
             (Inl (JSONDecodeError err), st1) \<Rightarrow>
               (Inl (ConfigurationError (''Invalid JSON messages file: '' @ err)), st1)
           | (Inl e, st1) \<Rightarrow> (Inl e, st1)
           | (Inr doc, st1) \<Rightarrow> (Inr doc, st1\<lparr>loaded := Some doc\<rparr>)))"

text \<open>\<^verbatim>\<open>Tester.check_config\<close>: \<^verbatim>\<open>None\<close> is a normal return.\<close>

definition check_marker :: "tester \<Rightarrow> string \<Rightarrow> exn option" where
  "check_marker t text =
     (if \<not> str_contains (judge_prompt t) text
      then Some (ConfigurationError (''The judge prompt must contains '' @ [CHR 0x27] @ text @ [CHR 0x27]))
      else None)"

definition check_config :: "env \<Rightarrow> tester \<Rightarrow> state \<Rightarrow> exn option \<times> state" where
  "check_config w t st =
     (case check_marker t ''{question}'' of
        Some e \<Rightarrow> (Some e, st)
      | None \<Rightarrow>
          (case check_marker t ''{answer}'' of
             Some e \<Rightarrow> (Some e, st)
           | None \<Rightarrow>
               (if load_messages_file t = None then (None, st)
                else (case load_messages w t st of
                        (Inl e, st1) \<Rightarrow> (Some e, st1)
                      | (Inr doc, st1) \<Rightarrow>
                          (if \<not> truthy doc
                           then (Some (ConfigurationError ''No loaded messages''), st1)
                           else (None, st1))))))"

subsection \<open>The conversation driver\<close>

text \<open>\<^verbatim>\<open>obj[:m]\<close> and iteration, on any value.\<close>

fun slice_upto :: "pyval \<Rightarrow> int \<Rightarrow> exn + pyval" where
  "slice_upto (PList xs) m = Inr (PList (slice_to xs m))"
| "slice_upto (PTuple xs) m = Inr (PTuple (slice_to xs m))"
| "slice_upto (PStr s) m = Inr (PStr (slice_to s m))"
| "slice_upto v m = Inl TypeError"

fun iter_items :: "pyval \<Rightarrow> exn + pyval list" where
  "iter_items (PList xs) = Inr xs"
| "iter_items (PTuple xs) = Inr xs"
| "iter_items (PStr s) = Inr (map (\<lambda>c. PStr [c]) s)"
| "iter_items (PDict kvs) = Inr (map (\<lambda>kv. PStr (fst kv)) kvs)"
| "iter_items v = Inl TypeError"

text \<open>\<^verbatim>\<open>key in obj\<close> for a string \<^verbatim>\<open>key\<close>.\<close>

fun str_in :: "string \<Rightarrow> pyval \<Rightarrow> exn + bool" where
  "str_in k (PDict kvs) = Inr (k \<in> set (map fst kvs))"
| "str_in k (PList xs) = Inr (PStr k \<in> set xs)"
| "str_in k (PTuple xs) = Inr (PStr k \<in> set xs)"
| "str_in k (PStr s) = Inr (str_contains s k)"
| "str_in k v = Inl TypeError"

text \<open>
  One turn of \<^verbatim>\<open>run_turns\<close>: the body of its loop. \<^verbatim>\<open>messages\<close> is the list built so far;
  the list handed to the client is the list at the time of the call. The list
  \<^verbatim>\<open>responses\<close> of the source is written and never read, and is left out.
\<close>

definition run_turn ::
  "env \<Rightarrow> tester \<Rightarrow> pyval \<Rightarrow> pyval \<Rightarrow> nat \<Rightarrow> pyval \<Rightarrow> pyval list \<Rightarrow> state
     \<Rightarrow> (exn + pyval list) \<times> state" where
  "run_turn w t question_id quest turn_id prompt messages st =
     (let st1 = do_log st Debug ''turn #%s'' [PInt (int turn_id)];
          st2 = do_log st1 Info ''> %s'' [prompt];
          message = [(''role'', PStr ''user''), (''content'', prompt)]
      in case str_in ''image_urls'' quest of
           Inl e \<Rightarrow> (Inl e, st2)
         | Inr has_images \<Rightarrow>
             (case (if has_images
                    then (case do_get_images w st2 question_id of
                            (Inl e, st3) \<Rightarrow> (Inl e, st3)
                          | (Inr imgs, st3) \<Rightarrow> (Inr (dict_set message ''images'' imgs), st3))
                    else (Inr message, st2)) of
                (Inl e, st3) \<Rightarrow> (Inl e, st3)
              | (Inr message', st3) \<Rightarrow>
                  (let messages1 = messages @ [PDict message'] in
                   case do_chat w st3 (model t) messages1 (ollama_options t) of
                     (Inl e, st4) \<Rightarrow> (Inl e, st4)
                   | (Inr response, st4) \<Rightarrow>
                       (case subscript response (PStr ''message'') of
                          Inl e \<Rightarrow> (Inl e, st4)
                        | Inr m \<Rightarrow>
                            (case subscript m (PStr ''content'') of
                               Inl e \<Rightarrow> (Inl e, st4)
                             | Inr c \<Rightarrow>
                                 (let st5 = do_log st4 Info ''< %s'' [c] in
                                  case subscript response (PStr ''message'') of
                                    Inl e \<Rightarrow> (Inl e, st5)
                                  | Inr m' \<Rightarrow>
                                      (case subscript m' (PStr ''content'') of
                                         Inl e \<Rightarrow> (Inl e, st5)
                                       | Inr c' \<Rightarrow>
                                           (Inr (messages1 @
                                              [PDict [(''role'', PStr ''assistant''), (''content'', c')]]),
                                            st5))))))))"

fun run_turns_loop ::
  "env \<Rightarrow> tester \<Rightarrow> pyval \<Rightarrow> pyval \<Rightarrow> nat \<Rightarrow> pyval list \<Rightarrow> pyval list \<Rightarrow> state
     \<Rightarrow> (exn + pyval list) \<times> state" where
  "run_turns_loop w t question_id quest turn_id [] messages st = (Inr messages, st)"
| "run_turns_loop w t question_id quest turn_id (prompt # prompts) messages st =
     (case run_turn w t question_id quest turn_id prompt messages st of
        (Inl e, st1) \<Rightarrow> (Inl e, st1)
      | (Inr messages1, st1) \<Rightarrow>
          run_turns_loop w t question_id quest (Suc turn_id) prompts messages1 st1)"

text \<open>\<^verbatim>\<open>Tester.run_turns\<close>. The list it returns is a new object of the store.\<close>

definition run_turns :: "env \<Rightarrow> tester \<Rightarrow> pyval \<Rightarrow> state \<Rightarrow> (exn + ref) \<times> state" where
  "run_turns w t question_id st =
     (case do_data_manager w st of
        (Some e, st1) \<Rightarrow> (Inl e, st1)
      | (None, st1) \<Rightarrow>
          (case do_get_question w st1 question_id of
             (Inl e, st2) \<Rightarrow> (Inl e, st2)
           | (Inr quest, st2) \<Rightarrow>
               (case (case system_prompt t of
                        None \<Rightarrow> (Inr [], st2)
                      | Some f \<Rightarrow>
                          (case do_read w st2 f of
                             (Inl e, st3) \<Rightarrow> (Inl e, st3)
                           | (Inr text, st3) \<Rightarrow>
                               (Inr [PDict [(''role'', PStr ''system''), (''content'', PStr text)]],
                                st3))) of
                  (Inl e, st3) \<Rightarrow> (Inl e, st3)
                | (Inr messages, st3) \<Rightarrow>
                    (case subscript quest (PStr ''turns'') of
                       Inl e \<Rightarrow> (Inl e, st3)
                     | Inr turns \<Rightarrow>
                         (case slice_upto turns (max_turns t) of
                            Inl e \<Rightarrow> (Inl e, st3)
                          | Inr sl \<Rightarrow>
                              (case iter_items sl of
                                 Inl e \<Rightarrow> (Inl e, st3)
                               | Inr prompts \<Rightarrow>
                                   (case run_turns_loop w t question_id quest 0 prompts messages st3 of
                                      (Inl e, st4) \<Rightarrow> (Inl e, st4)
                                    | (Inr msgs, st4) \<Rightarrow>
                                        (case alloc st4 (PList msgs) of
                                           (a, st5) \<Rightarrow> (Inr (Obj a), st5)))))))))"

subsection \<open>The judge pipeline\<close>

text \<open>
  The body of the loop of \<^verbatim>\<open>evaluate_turns\<close>, after the two \<^verbatim>\<open>pop\<close>s: the judge
  prompt is rendered from one (prompt, answer) pair, and the pair is sent to the judge.
\<close>

definition judge_template_args :: "tester \<Rightarrow> pyval \<Rightarrow> pyval \<Rightarrow> (string \<times> pyval) list" where
  "judge_template_args t q a =
     [(''question'', q), (''answer'', a), (''options'', ollama_judge_options t)]"

definition judge_messages :: "tester \<Rightarrow> string \<Rightarrow> pyval list" where
  "judge_messages t rendered =
     [PDict [(''role'', PStr ''system''), (''content'', PStr (judge_system_prompt t))],
      PDict [(''role'', PStr ''user''), (''content'', PStr rendered)]]"

definition render_judge_prompt :: "env \<Rightarrow> tester \<Rightarrow> pyval \<Rightarrow> pyval \<Rightarrow> exn + string" where
  "render_judge_prompt w t prompt answer =
     (case subscript prompt (PStr ''content'') of
        Inl e \<Rightarrow> Inl e
      | Inr q \<Rightarrow>
          (case subscript answer (PStr ''content'') of
             Inl e \<Rightarrow> Inl e
           | Inr a \<Rightarrow> str_format w (judge_prompt t) (judge_template_args t q a)))"

definition judge_pair ::
  "env \<Rightarrow> tester \<Rightarrow> pyval \<Rightarrow> pyval \<Rightarrow> state \<Rightarrow> (exn + pyval) \<times> state" where
  "judge_pair w t prompt answer st =
     (case render_judge_prompt w t prompt answer of
        Inl e \<Rightarrow> (Inl e, st)
      | Inr rendered \<Rightarrow>
          (let st1 = do_log st Debug ''system > %s'' [PStr (judge_system_prompt t)];
               st2 = do_log st1 Info ''> %s'' [PStr rendered]
           in case do_chat w st2 (judge_model t) (judge_messages t rendered)
                     (ollama_options t) of
                (Inl e, st3) \<Rightarrow> (Inl e, st3)
              | (Inr response, st3) \<Rightarrow>
                  (case subscript response (PStr ''message'') of
                     Inl e \<Rightarrow> (Inl e, st3)
                   | Inr m \<Rightarrow>
                       (case subscript m (PStr ''content'') of
                          Inl e \<Rightarrow> (Inl e, st3)
                        | Inr c \<Rightarrow>
                            (Inr response, do_log st3 Info ''< %s'' [c])))))"

text \<open>
  The loop \<^verbatim>\<open>while messages:\<close> on the working copy at address \<^verbatim>\<open>a\<close>. Each round pops
  twice, so the length of the list at \<^verbatim>\<open>a\<close> decreases and the loop ends.
\<close>

definition obj_len :: "state \<Rightarrow> nat \<Rightarrow> nat" where
  "obj_len st a = (case objs st a of PList xs \<Rightarrow> length xs | _ \<Rightarrow> 0)"

lemma judge_pair_objs: "judge_pair w t p a st = (r, st') \<Longrightarrow> objs st' = objs st"
  by (auto simp: judge_pair_def do_chat_def do_log_def record_event_def Let_def
      split: sum.splits prod.splits)

lemma obj_pop0_len: "obj_pop0 st a = Inr (x, st') \<Longrightarrow> obj_len st' a < obj_len st a"
  by (auto simp: obj_pop0_def obj_len_def split: pyval.splits list.splits)

function pairing_loop ::
  "env \<Rightarrow> tester \<Rightarrow> nat \<Rightarrow> pyval list \<Rightarrow> state \<Rightarrow> (exn + pyval list) \<times> state" where
  "pairing_loop w t a judgements st =
     (if \<not> truthy (objs st a) then (Inr judgements, st)
      else (case obj_pop0 st a of
              Inl e \<Rightarrow> (Inl e, st)
            | Inr (prompt, st1) \<Rightarrow>
                (case obj_pop0 st1 a of
                   Inl e \<Rightarrow> (Inl e, st1)
                 | Inr (answer, st2) \<Rightarrow>
                     (case judge_pair w t prompt answer st2 of
                        (Inl e, st3) \<Rightarrow> (Inl e, st3)
                      | (Inr response, st3) \<Rightarrow>
                          pairing_loop w t a (judgements @ [response]) st3))))"
  by pat_completeness auto

termination
proof (relation "measure (\<lambda>(w, t, a, judgements, st). obj_len st a)")
  show "wf (measure (\<lambda>(w, t, a, judgements, st). obj_len st a))" by simp
next
  fix w t a judgements st x2 prompt st1 x2a answer st2 x y response
  assume "obj_pop0 st a = Inr x2" "(prompt, st1) = x2" "obj_pop0 st1 a = Inr x2a"
    "(answer, st2) = x2a" "(x, y) = judge_pair w t prompt answer st2" "x = Inr response"
  then show "((w, t, a, judgements @ [response], y), (w, t, a, judgements, st))
      \<in> measure (\<lambda>(w, t, a, judgements, st). obj_len st a)"
    using obj_pop0_len[of st a prompt st1] obj_pop0_len[of st1 a answer st2]
      judge_pair_objs[of w t prompt answer st2 x y]
    by (simp add: obj_len_def)
qed

declare pairing_loop.simps [simp del]

text \<open>
  \<^verbatim>\<open>if messages and messages[0]['role'] == "system": system = messages.pop(0)\<close>
  on the working copy.
\<close>

definition drop_system :: "state \<Rightarrow> nat \<Rightarrow> exn + state" where
  "drop_system st a =
     (if \<not> truthy (objs st a) then Inr st
      else (case subscript (objs st a) (PInt 0) of
              Inl e \<Rightarrow> Inl e
            | Inr m \<Rightarrow>
                (case subscript m (PStr ''role'') of
                   Inl e \<Rightarrow> Inl e
                 | Inr role \<Rightarrow>
                     (if role = PStr ''system''
                      then (case obj_pop0 st a of
                              Inl e \<Rightarrow> Inl e
                            | Inr (system, st1) \<Rightarrow> Inr st1)
                      else Inr st))))"

text \<open>
  \<^verbatim>\<open>Tester.evaluate_turns\<close>. The argument is a reference to the caller's object;
  \<^verbatim>\<open>messages = messages[::]\<close> binds the local name to a new object of the store.
\<close>

definition evaluate_turns ::
  "env \<Rightarrow> tester \<Rightarrow> ref \<Rightarrow> state \<Rightarrow> (exn + pyval list) \<times> state" where
  "evaluate_turns w t r st =
     (case deref st r of
        Inl e \<Rightarrow> (Inl e, st)
      | Inr v \<Rightarrow>
          (case slice_all v of
             Inl e \<Rightarrow> (Inl e, st)
           | Inr c \<Rightarrow>
               (case alloc st c of
                  (a, st1) \<Rightarrow>
                    (case drop_system st1 a of
                       Inl e \<Rightarrow> (Inl e, st1)
                     | Inr st2 \<Rightarrow> pairing_loop w t a [] st2))))"

subsection \<open>The result aggregator\<close>

text \<open>\<^verbatim>\<open>Tester._parse_judgement\<close>: \<^verbatim>\<open>json.loads\<close> takes text only.\<close>

definition parse_judgement :: "env \<Rightarrow> pyval \<Rightarrow> exn + pyval" where
  "parse_judgement w judgement =
     (case judgement of PStr s \<Rightarrow> json_loads w s | _ \<Rightarrow> Inl TypeError)"

text \<open>
  The comprehension
  \<^verbatim>\<open>[self._parse_judgement(j['message']['content']) for j in judgements]\<close>.
\<close>

fun parse_judgements :: "env \<Rightarrow> pyval list \<Rightarrow> exn + pyval list" where
  "parse_judgements w [] = Inr []"
| "parse_judgements w (j # js) =
     (case subscript j (PStr ''message'') of
        Inl e \<Rightarrow> Inl e
      | Inr m \<Rightarrow>
          (case subscript m (PStr ''content'') of
             Inl e \<Rightarrow> Inl e
           | Inr c \<Rightarrow>
               (case parse_judgement w c of
                  Inl e \<Rightarrow> Inl e
                | Inr v \<Rightarrow>
                    (case parse_judgements w js of
                       Inl e \<Rightarrow> Inl e
                     | Inr vs \<Rightarrow> Inr (v # vs)))))"

text \<open>
  The first block of \<^verbatim>\<open>run\<close>: the transcript comes from the loaded document when
  \<^verbatim>\<open>self.load_messages\<close> is true, from \<^verbatim>\<open>run_turns\<close> otherwise.
\<close>

definition obtain_transcript :: "env \<Rightarrow> tester \<Rightarrow> pyval \<Rightarrow> state \<Rightarrow> (exn + ref) \<times> state" where
  "obtain_transcript w t question_id st =
     (case load_messages w t st of
        (Inl e, st1) \<Rightarrow> (Inl e, st1)
      | (Inr doc, st1) \<Rightarrow>
          (if truthy doc
           then (case load_messages w t st1 of
                   (Inl e, st2) \<Rightarrow> (Inl e, st2)
                 | (Inr doc', st2) \<Rightarrow>
                     (case subscript doc' question_id of
                        Inl e \<Rightarrow> (Inl e, st2)
                      | Inr item \<Rightarrow> (Inr (LoadedItem question_id), st2)))
           else run_turns w t question_id st1))"

text \<open>
  \<^verbatim>\<open>if (not self.load_messages) and self.model == self.judge_model:
      self.client.unload(self.model)\<close>
\<close>

definition unload_if_same_model :: "env \<Rightarrow> tester \<Rightarrow> state \<Rightarrow> exn option \<times> state" where
  "unload_if_same_model w t st =
     (case load_messages w t st of
        (Inl e, st1) \<Rightarrow> (Some e, st1)
      | (Inr doc, st1) \<Rightarrow>
          (if \<not> truthy doc \<and> model t = judge_model t
           then do_unload w st1 (model t)
           else (None, st1)))"

record result =
  messages :: ref
  judgements :: "pyval list"
  message_duration :: real
  judge_duration :: real
  work_duration :: real

text \<open>
  The second half of \<^verbatim>\<open>run\<close>: the judge pipeline is timed, the judge responses are
  parsed and the result is assembled.
\<close>

definition judge_phase ::
  "env \<Rightarrow> tester \<Rightarrow> ref \<Rightarrow> real \<Rightarrow> state \<Rightarrow> (exn + result) \<times> state" where
  "judge_phase w t msgs duration st =
     (case do_time w st of
        (t0, st1) \<Rightarrow>
          (case evaluate_turns w t msgs st1 of
             (Inl e, st2) \<Rightarrow> (Inl e, st2)
           | (Inr js, st2) \<Rightarrow>
               (case do_time w st2 of
                  (t1, st3) \<Rightarrow>
                    (case parse_judgements w js of
                       Inl e \<Rightarrow> (Inl e, st3)
                     | Inr contents \<Rightarrow>
                         (Inr \<lparr> messages = msgs,
                                judgements = contents,
                                message_duration = duration,
                                judge_duration = t1 - t0,
                                work_duration = duration + (t1 - t0) \<rparr>,
                          st3)))))"

text \<open>\<^verbatim>\<open>Tester.run\<close>.\<close>

definition run :: "env \<Rightarrow> tester \<Rightarrow> pyval \<Rightarrow> state \<Rightarrow> (exn + result) \<times> state" where
  "run w t question_id st =
     (case do_time w st of
        (t0, st1) \<Rightarrow>
          (case obtain_transcript w t question_id st1 of
             (Inl e, st2) \<Rightarrow> (Inl e, st2)
           | (Inr msgs, st2) \<Rightarrow>
               (case do_time w st2 of
                  (t1, st3) \<Rightarrow>
                    (case unload_if_same_model w t st3 of
                       (Some e, st4) \<Rightarrow> (Inl e, st4)
                     | (None, st4) \<Rightarrow> judge_phase w t msgs (t1 - t0) st4))))"

section \<open>A model of \<^verbatim>\<open>json.loads\<close>\<close>

text \<open>
  The standard decoder, for the concrete runs below: a lexer that reads one character at
  a time, and a stack machine over its tokens. It accepts what \<^verbatim>\<open>json.loads\<close> accepts
  with its default arguments (strict mode; \<^verbatim>\<open>NaN\<close>, \<^verbatim>\<open>Infinity\<close> and \<^verbatim>\<open>-Infinity\<close> are
  values) on text whose characters are code points below 256. The text of the message of a
  \<^verbatim>\<open>JSONDecodeError\<close> is not modelled. A \<^verbatim>\<open>\u\<close> escape of a code point above 255 has no
  value in \<^typ>\<open>string\<close>: the model raises \<^verbatim>\<open>ValueError\<close> there, where Python returns
  the character.

  A run of letters, digits, signs and dots is one atom: a keyword or a number. Python reads
  the longest number or the keyword at the position and fails on the character after it when
  that character cannot follow a value, so both accept the same atoms.
\<close>

datatype token =
    TLBrace | TRBrace | TLBracket | TRBracket | TColon | TComma
  | TStr string
  | TScalar pyval

definition is_ws :: "char \<Rightarrow> bool" where
  "is_ws c = (c = CHR '' '' \<or> c = CHR 0x09 \<or> c = CHR 0x0A \<or> c = CHR 0x0D)"

definition digit_of :: "char \<Rightarrow> nat option" where
  "digit_of c =
     (let n = (of_char c :: nat) in if 48 \<le> n \<and> n \<le> 57 then Some (n - 48) else None)"

definition hex_of :: "char \<Rightarrow> nat option" where
  "hex_of c =
     (let n = (of_char c :: nat) in
      if 48 \<le> n \<and> n \<le> 57 then Some (n - 48)
      else if 65 \<le> n \<and> n \<le> 70 then Some (n - 55)
      else if 97 \<le> n \<and> n \<le> 102 then Some (n - 87)
      else None)"

definition is_atom_char :: "char \<Rightarrow> bool" where
  "is_atom_char c =
     (let n = (of_char c :: nat) in
      (48 \<le> n \<and> n \<le> 57) \<or> (65 \<le> n \<and> n \<le> 90) \<or> (97 \<le> n \<and> n \<le> 122)
      \<or> c = CHR ''+'' \<or> c = CHR ''-'' \<or> c = CHR ''.'')"

fun digits_val :: "nat \<Rightarrow> string \<Rightarrow> nat option" where
  "digits_val n [] = Some n"
| "digits_val n (c # cs) =
     (case digit_of c of None \<Rightarrow> None | Some d \<Rightarrow> digits_val (10 * n + d) cs)"

definition is_digit :: "char \<Rightarrow> bool" where
  "is_digit c = (digit_of c \<noteq> None)"

definition json_error :: exn where
  "json_error = JSONDecodeError ''invalid JSON''"

definition scan_number :: "string \<Rightarrow> pyval option" where
  "scan_number s =
     (let neg = (s \<noteq> [] \<and> hd s = CHR ''-'');
          s1 = (if neg then tl s else s);
          ip = takeWhile is_digit s1;
          s2 = dropWhile is_digit s1;
          has_frac = (s2 \<noteq> [] \<and> hd s2 = CHR ''.'');
          fp = (if has_frac then takeWhile is_digit (tl s2) else []);
          s3 = (if has_frac then dropWhile is_digit (tl s2) else s2);
          has_exp = (s3 \<noteq> [] \<and> (hd s3 = CHR ''e'' \<or> hd s3 = CHR ''E''));
          s4 = (if has_exp then tl s3 else s3);
          eneg = (has_exp \<and> s4 \<noteq> [] \<and> hd s4 = CHR ''-'');
          s5 = (if has_exp \<and> s4 \<noteq> [] \<and> (hd s4 = CHR ''-'' \<or> hd s4 = CHR ''+'') then tl s4 else s4);
          ep = (if has_exp then takeWhile is_digit s5 else []);
          s6 = (if has_exp then dropWhile is_digit s5 else s5)
      in if ip = [] \<or> (hd ip = CHR ''0'' \<and> length ip > 1) \<or> (has_frac \<and> fp = [])
            \<or> (has_exp \<and> ep = []) \<or> s6 \<noteq> []
         then None
         else (case (digits_val 0 ip, digits_val 0 fp, digits_val 0 ep) of
                 (Some i, Some f, Some e) \<Rightarrow>
                   (if \<not> has_frac \<and> \<not> has_exp
                    then Some (PInt (if neg then - int i else int i))
                    else (let m = real i + real f / 10 ^ length fp;
                              v = (if eneg then m / 10 ^ e else m * 10 ^ e)
                          in Some (PFloat (Fin (if neg then - v else v)))))
               | _ \<Rightarrow> None))"

definition scan_atom :: "string \<Rightarrow> exn + pyval" where
  "scan_atom s =
     (if s = ''null'' then Inr PNone
      else if s = ''true'' then Inr (PBool True)
      else if s = ''false'' then Inr (PBool False)
      else if s = ''NaN'' then Inr (PFloat NaN)
      else if s = ''Infinity'' then Inr (PFloat (Inf True))
      else if s = ''-Infinity'' then Inr (PFloat (Inf False))
      else (case scan_number s of None \<Rightarrow> Inl json_error | Some v \<Rightarrow> Inr v))"

definition unescape :: "char \<Rightarrow> char option" where
  "unescape c =
     (if c = CHR 0x22 then Some (CHR 0x22)
      else if c = CHR 0x5C then Some (CHR 0x5C)
      else if c = CHR ''/'' then Some (CHR ''/'')
      else if c = CHR ''b'' then Some (CHR 0x08)
      else if c = CHR ''f'' then Some (CHR 0x0C)
      else if c = CHR ''n'' then Some (CHR 0x0A)
      else if c = CHR ''r'' then Some (CHR 0x0D)
      else if c = CHR ''t'' then Some (CHR 0x09)
      else None)"

definition punct :: "char \<Rightarrow> token option" where
  "punct c =
     (if c = CHR ''{'' then Some TLBrace
      else if c = CHR ''}'' then Some TRBrace
      else if c = CHR ''['' then Some TLBracket
      else if c = CHR '']'' then Some TRBracket
      else if c = CHR '':'' then Some TColon
      else if c = CHR '','' then Some TComma
      else None)"

fun lex :: "token list \<Rightarrow> string \<Rightarrow> exn + token list"
  and lex_string :: "token list \<Rightarrow> string \<Rightarrow> string \<Rightarrow> exn + token list"
  and lex_escape :: "token list \<Rightarrow> string \<Rightarrow> string \<Rightarrow> exn + token list"
  and lex_hex :: "token list \<Rightarrow> string \<Rightarrow> nat \<Rightarrow> nat \<Rightarrow> string \<Rightarrow> exn + token list"
  and lex_atom :: "token list \<Rightarrow> string \<Rightarrow> string \<Rightarrow> exn + token list" where
  "lex acc [] = Inr (rev acc)"
| "lex acc (c # cs) =
     (if is_ws c then lex acc cs
      else if c = CHR 0x22 then lex_string acc [] cs
      else if is_atom_char c then lex_atom acc [c] cs
      else (case punct c of None \<Rightarrow> Inl json_error | Some tk \<Rightarrow> lex (tk # acc) cs))"
| "lex_string acc sacc [] = Inl json_error"
| "lex_string acc sacc (c # cs) =
     (if c = CHR 0x22 then lex (TStr (rev sacc) # acc) cs
      else if c = CHR 0x5C then lex_escape acc sacc cs
      else if (of_char c :: nat) < 32 then Inl json_error
      else lex_string acc (c # sacc) cs)"
| "lex_escape acc sacc [] = Inl json_error"
| "lex_escape acc sacc (c # cs) =
     (if c = CHR ''u'' then lex_hex acc sacc 4 0 cs
      else (case unescape c of
              None \<Rightarrow> Inl json_error
            | Some d \<Rightarrow> lex_string acc (d # sacc) cs))"
| "lex_hex acc sacc k n [] = Inl json_error"
| "lex_hex acc sacc k n (c # cs) =
     (case hex_of c of
        None \<Rightarrow> Inl json_error
      | Some d \<Rightarrow>
          (if k \<le> 1
           then (if 16 * n + d < 256 then lex_string acc (char_of (16 * n + d) # sacc) cs
                 else Inl ValueError)
           else lex_hex acc sacc (k - 1) (16 * n + d) cs))"
| "lex_atom acc aacc [] =
     (case scan_atom (rev aacc) of Inl e \<Rightarrow> Inl e | Inr v \<Rightarrow> Inr (rev (TScalar v # acc)))"
| "lex_atom acc aacc (c # cs) =
     (if is_atom_char c then lex_atom acc (c # aacc) cs
      else (case scan_atom (rev aacc) of
              Inl e \<Rightarrow> Inl e
            | Inr v \<Rightarrow>
                (if is_ws c then lex (TScalar v # acc) cs
                 else if c = CHR 0x22 then lex_string (TScalar v # acc) [] cs
                 else (case punct c of
                         None \<Rightarrow> Inl json_error
                       | Some tk \<Rightarrow> lex (tk # TScalar v # acc) cs))))"

datatype frame = FArr "pyval list" | FObj "(string \<times> pyval) list" | FKey "(string \<times> pyval) list" string

datatype mode = WantValue | WantValueOrEnd | WantKeyOrEnd | WantKey | WantColon | WantCommaOrEnd
  | Finished pyval

fun deliver :: "pyval \<Rightarrow> frame list \<Rightarrow> exn + frame list \<times> mode" where
  "deliver v [] = Inr ([], Finished v)"
| "deliver v (FArr es # fs) = Inr (FArr (es @ [v]) # fs, WantCommaOrEnd)"
| "deliver v (FKey kvs k # fs) = Inr (FObj (dict_set kvs k v) # fs, WantCommaOrEnd)"
| "deliver v (FObj kvs # fs) = Inl json_error"

fun parse_value_token :: "bool \<Rightarrow> token \<Rightarrow> frame list \<Rightarrow> exn + frame list \<times> mode" where
  "parse_value_token may_end (TStr s) fs = deliver (PStr s) fs"
| "parse_value_token may_end (TScalar v) fs = deliver v fs"
| "parse_value_token may_end TLBracket fs = Inr (FArr [] # fs, WantValueOrEnd)"
| "parse_value_token may_end TLBrace fs = Inr (FObj [] # fs, WantKeyOrEnd)"
| "parse_value_token may_end TRBracket (FArr es # fs) =
     (if may_end then deliver (PList es) fs else Inl json_error)"
| "parse_value_token may_end tk fs = Inl json_error"

fun parse_key_token :: "bool \<Rightarrow> token \<Rightarrow> frame list \<Rightarrow> exn + frame list \<times> mode" where
  "parse_key_token may_end (TStr k) (FObj kvs # fs) = Inr (FKey kvs k # fs, WantColon)"
| "parse_key_token may_end TRBrace (FObj kvs # fs) =
     (if may_end then deliver (PDict kvs) fs else Inl json_error)"
| "parse_key_token may_end tk fs = Inl json_error"

fun parse_sep_token :: "token \<Rightarrow> frame list \<Rightarrow> exn + frame list \<times> mode" where
  "parse_sep_token TComma (FArr es # fs) = Inr (FArr es # fs, WantValue)"
| "parse_sep_token TComma (FObj kvs # fs) = Inr (FObj kvs # fs, WantKey)"
| "parse_sep_token TRBracket (FArr es # fs) = deliver (PList es) fs"
| "parse_sep_token TRBrace (FObj kvs # fs) = deliver (PDict kvs) fs"
| "parse_sep_token tk fs = Inl json_error"

fun parse_step :: "mode \<Rightarrow> token \<Rightarrow> frame list \<Rightarrow> exn + frame list \<times> mode" where
  "parse_step WantValue tk fs = parse_value_token False tk fs"
| "parse_step WantValueOrEnd tk fs = parse_value_token True tk fs"
| "parse_step WantKeyOrEnd tk fs = parse_key_token True tk fs"
| "parse_step WantKey tk fs = parse_key_token False tk fs"
| "parse_step WantColon tk fs = (if tk = TColon then Inr (fs, WantValue) else Inl json_error)"
| "parse_step WantCommaOrEnd tk fs = parse_sep_token tk fs"
| "parse_step (Finished v) tk fs = Inl json_error"

fun parse_tokens :: "frame list \<Rightarrow> mode \<Rightarrow> token list \<Rightarrow> exn + pyval" where
  "parse_tokens fs m [] = (case m of Finished v \<Rightarrow> Inr v | _ \<Rightarrow> Inl json_error)"
| "parse_tokens fs m (tk # tks) =
     (case parse_step m tk fs of
        Inl e \<Rightarrow> Inl e
      | Inr (fs', m') \<Rightarrow> parse_tokens fs' m' tks)"

definition py_json_loads :: "string \<Rightarrow> exn + pyval" where
  "py_json_loads s =
     (case lex [] s of Inl e \<Rightarrow> Inl e | Inr tks \<Rightarrow> parse_tokens [] WantValue tks)"

section \<open>A concrete world\<close>

text \<open>
  \<^verbatim>\<open>str.format\<close> for the concrete runs below: literal text, the escapes \<^verbatim>\<open>{{\<close> and
  \<^verbatim>\<open>}}\<close>, and replacement fields that are a plain name bound to a string, where it returns
  what Python returns. An unknown name is a \<^verbatim>\<open>KeyError\<close>, a lone brace a \<^verbatim>\<open>ValueError\<close>,
  as in Python. Any other replacement field (positional, with a conversion, a format
  specification, an attribute or an index, or bound to a value that is not a string) is not
  modelled: the function raises \<^verbatim>\<open>ValueError\<close> there.
\<close>

definition is_name_char :: "char \<Rightarrow> bool" where
  "is_name_char c =
     (let n = (of_char c :: nat) in
      (48 \<le> n \<and> n \<le> 57) \<or> (65 \<le> n \<and> n \<le> 90) \<or> (97 \<le> n \<and> n \<le> 122) \<or> c = CHR ''_'')"

definition plain_name :: "string \<Rightarrow> bool" where
  "plain_name s = (s \<noteq> [] \<and> list_all is_name_char s \<and> \<not> is_digit (hd s))"

fun format_text :: "(string \<times> pyval) list \<Rightarrow> string \<Rightarrow> string \<Rightarrow> exn + string"
  and format_open :: "(string \<times> pyval) list \<Rightarrow> string \<Rightarrow> string \<Rightarrow> exn + string"
  and format_close :: "(string \<times> pyval) list \<Rightarrow> string \<Rightarrow> string \<Rightarrow> exn + string"
  and format_field :: "(string \<times> pyval) list \<Rightarrow> string \<Rightarrow> string \<Rightarrow> string \<Rightarrow> exn + string" where
  "format_text kw out [] = Inr (rev out)"
| "format_text kw out (c # cs) =
     (if c = CHR ''{'' then format_open kw out cs
      else if c = CHR ''}'' then format_close kw out cs
      else format_text kw (c # out) cs)"
| "format_open kw out [] = Inl ValueError"
| "format_open kw out (c # cs) =
     (if c = CHR ''{'' then format_text kw (c # out) cs
      else format_field kw out [] (c # cs))"
| "format_close kw out [] = Inl ValueError"
| "format_close kw out (c # cs) =
     (if c = CHR ''}'' then format_text kw (c # out) cs else Inl ValueError)"
| "format_field kw out name [] = Inl ValueError"
| "format_field kw out name (c # cs) =
     (if c = CHR ''}''
      then (if \<not> plain_name (rev name) then Inl ValueError
            else (case map_of kw (rev name) of
                    None \<Rightarrow> Inl KeyError
                  | Some (PStr s) \<Rightarrow> format_text kw (rev s @ out) cs
                  | Some v \<Rightarrow> Inl ValueError))
      else format_field kw out (c # name) cs)"

definition format_named :: "string \<Rightarrow> (string \<times> pyval) list \<Rightarrow> exn + string" where
  "format_named template kw = format_text kw [] template"

text \<open>
  A world in which the client answers every chat with the same reply text, the question
  repository knows one question of two turns, the file \<^verbatim>\<open>transcripts.json\<close> holds one
  recorded transcript and the file \<^verbatim>\<open>empty.json\<close> an empty array, a file yields its text on
  the first read and nothing after, and the clock counts the calls made so far.
\<close>

definition chat_reply :: "string \<Rightarrow> pyval" where
  "chat_reply text =
     PDict [(''message'', PDict [(''role'', PStr ''assistant''), (''content'', PStr text)])]"

definition transcripts_text :: string where
  "transcripts_text =
     ''[[{\"role\":\"user\",\"content\":\"hi\"},{\"role\":\"assistant\",\"content\":\"hello\"}]]''"

definition rated_70 :: string where
  "rated_70 = ''{\"evaluation\":\"ok\",\"total_rating\":\"70\",\"feedback\":\"none\"}''"

fun is_read_of :: "pyfile \<Rightarrow> event \<Rightarrow> bool" where
  "is_read_of f (EvRead g r) = (f = g)"
| "is_read_of f ev = False"

definition file_text :: "pyfile \<Rightarrow> string" where
  "file_text f =
     (if f = PyFile ''transcripts.json'' then transcripts_text
      else if f = PyFile ''empty.json'' then ''[]''
      else if f = PyFile ''system.txt'' then ''Be brief.''
      else [])"

definition demo_world :: "string \<Rightarrow> env" where
  "demo_world reply =
     \<lparr> client_chat = (\<lambda>h m msgs opts. Inr (chat_reply reply)),
       client_unload = (\<lambda>h m. None),
       new_data_manager = (\<lambda>h. None),
       dm_get_question = (\<lambda>h q. Inr (PDict [(''turns'', PList [PStr ''What is 2+2?'', PStr ''And 3+3?''])])),
       dm_get_question_b64_images = (\<lambda>h q. Inr (PList [])),
       fp_read = (\<lambda>h f. Inr (if list_ex (is_read_of f) h then [] else file_text f)),
       time_time = (\<lambda>h. real (length h)),
       str_format = format_named,
       json_loads = py_json_loads \<rparr>"

definition initial_state :: state where
  "initial_state = \<lparr> trace = [], loaded = None, objs = (\<lambda>a. PNone), next_addr = 0 \<rparr>"

text \<open>
  Two testers: one replays \<^verbatim>\<open>transcripts.json\<close>, the other has no transcript source.
  Both judge with the model under test.
\<close>

definition replay_tester :: tester where
  "replay_tester =
     init ''llama3'' (PDict [(''temperature'', PInt 0)]) ''llama3'' None (Some ''Rate it.'')
       (Some ''Q: {question} A: {answer}'') (PDict [(''seed'', PInt 7)]) (PInt 0) 1
       (Some (PyFile ''transcripts.json''))"

definition live_tester :: tester where
  "live_tester =
     init ''llama3'' (PDict [(''temperature'', PInt 0)]) ''llama3'' None (Some ''Rate it.'')
       (Some ''Q: {question} A: {answer}'') (PDict [(''seed'', PInt 7)]) (PStr ''q1'') 1 None"

subsection \<open>Concrete transcripts, testers and states\<close>

text \<open>Messages as the conversation driver builds them, and a store that holds one transcript.\<close>

definition user_msg :: "string \<Rightarrow> pyval" where
  "user_msg s = PDict [(''role'', PStr ''user''), (''content'', PStr s)]"

definition assistant_msg :: "string \<Rightarrow> pyval" where
  "assistant_msg s = PDict [(''role'', PStr ''assistant''), (''content'', PStr s)]"

definition system_msg :: "string \<Rightarrow> pyval" where
  "system_msg s = PDict [(''role'', PStr ''system''), (''content'', PStr s)]"

definition stored :: "pyval list \<Rightarrow> state" where
  "stored msgs = initial_state\<lparr>objs := (objs initial_state)(0 := PList msgs), next_addr := 1\<rparr>"

text \<open>Two transcripts, what the judge pipeline adds to the trace for the shorter one, and a
  tester whose template lacks the answer marker.\<close>

definition two_turns :: "pyval list" where
  "two_turns = [user_msg ''hi'', assistant_msg ''hello'', user_msg ''2+2?'', assistant_msg ''4'']"

definition one_turn :: "pyval list" where
  "one_turn = [user_msg ''hi'', assistant_msg ''hello'']"

definition judge_events_hi :: "string \<Rightarrow> event list" where
  "judge_events_hi reply =
     [EvLog Debug ''system > %s'' [PStr ''Rate it.''],
      EvLog Info ''> %s'' [PStr ''Q: hi A: hello''],
      EvChat ''llama3'' (judge_messages replay_tester ''Q: hi A: hello'')
        (PDict [(''temperature'', PInt 0)]) (Inr (chat_reply reply)),
      EvLog Info ''< %s'' [PStr reply]]"

definition no_answer_tester :: tester where
  "no_answer_tester =
     init ''llama3'' PNone ''llama3'' None None (Some ''Question: {question}'') PNone (PStr ''q1'') 1 None"

text \<open>The state that \<^verbatim>\<open>check_config\<close> leaves when the tester replays \<^verbatim>\<open>transcripts.json\<close>.\<close>

definition loaded_state :: state where
  "loaded_state =
     initial_state\<lparr>trace := [EvRead (PyFile ''transcripts.json'') (Inr transcripts_text)],
                    loaded := Some (PList [PList one_turn])\<rparr>"

text \<open>A tester whose transcript source holds an empty array, judged by the model under test.\<close>

definition empty_source_tester :: tester where
  "empty_source_tester =
     init ''llama3'' (PDict [(''temperature'', PInt 0)]) ''llama3'' None (Some ''Rate it.'')
       (Some ''Q: {question} A: {answer}'') (PDict [(''seed'', PInt 7)]) (PStr ''q1'') 1
       (Some (PyFile ''empty.json''))"

section \<open>Reference notions\<close>

text \<open>
  The pairs of a transcript by position, \<^verbatim>\<open>(seq[2i], seq[2i+1])\<close>; a last message
  without a partner belongs to no pair.
\<close>

fun pairs_of :: "'a list \<Rightarrow> ('a \<times> 'a) list" where
  "pairs_of (p # a # rest) = (p, a) # pairs_of rest"
| "pairs_of [x] = []"
| "pairs_of [] = []"

text \<open>
  Judging the pairs of a list one after the other, in order: each pair is rendered and sent
  to the judge as the loop body does it, and the first failure ends the iteration.
\<close>

fun judge_pairs ::
  "env \<Rightarrow> tester \<Rightarrow> (pyval \<times> pyval) list \<Rightarrow> pyval list \<Rightarrow> state
     \<Rightarrow> (exn + pyval list) \<times> state" where
  "judge_pairs w t [] js st = (Inr js, st)"
| "judge_pairs w t (pa # ps) js st =
     (case judge_pair w t (fst pa) (snd pa) st of
        (Inl e, st1) \<Rightarrow> (Inl e, st1)
      | (Inr response, st1) \<Rightarrow> judge_pairs w t ps (js @ [response]) st1)"

text \<open>
  The part of a transcript that is judged: the transcript without its first message when
  that message has the role \<^verbatim>\<open>system\<close>.
\<close>

fun judged_part :: "pyval list \<Rightarrow> exn + pyval list" where
  "judged_part [] = Inr []"
| "judged_part (m # ms) =
     (case subscript m (PStr ''role'') of
        Inl e \<Rightarrow> Inl e
      | Inr role \<Rightarrow> if role = PStr ''system'' then Inr ms else Inr (m # ms))"

text \<open>The events a run adds to the trace, and kinds of events.\<close>

definition new_events :: "state \<Rightarrow> state \<Rightarrow> event list" where
  "new_events st st' = drop (length (trace st)) (trace st')"

fun is_chat :: "event \<Rightarrow> bool" where
  "is_chat (EvChat m msgs opts r) = True"
| "is_chat ev = False"

fun is_unload :: "event \<Rightarrow> bool" where
  "is_unload (EvUnload m r) = True"
| "is_unload ev = False"

fun is_time :: "event \<Rightarrow> bool" where
  "is_time (EvTime r) = True"
| "is_time ev = False"

fun is_log :: "event \<Rightarrow> bool" where
  "is_log (EvLog lvl fmt args) = True"
| "is_log ev = False"

text \<open>
  An event of the judge pipeline: a log line, or a call of the client that goes to the
  judge model with the general options and the two messages of the judge conversation,
  the second of which holds a prompt that \<^verbatim>\<open>str.format\<close> rendered from the judge template.
\<close>

definition judge_event :: "env \<Rightarrow> tester \<Rightarrow> event \<Rightarrow> bool" where
  "judge_event w t ev =
     (is_log ev \<or>
      (\<exists>q a s r. str_format w (judge_prompt t) (judge_template_args t q a) = Inr s \<and>
         ev = EvChat (judge_model t) (judge_messages t s) (ollama_options t) r))"

text \<open>What the pop-based loop computes, for a working copy that is a list.\<close>

definition loop_outcome :: "nat \<Rightarrow> exn + pyval list \<Rightarrow> exn + pyval list" where
  "loop_outcome n r =
     (case r of Inl e \<Rightarrow> Inl e | Inr js \<Rightarrow> if even n then Inr js else Inl IndexError)"

text \<open>
  The call of the judge for a pair, with its response: the prompt is rendered from the
  pair and the client returned the response.
\<close>

definition judged_from :: "env \<Rightarrow> tester \<Rightarrow> event \<Rightarrow> (pyval \<times> pyval) \<times> pyval \<Rightarrow> bool" where
  "judged_from w t ev x =
     (\<exists>s. render_judge_prompt w t (fst (fst x)) (snd (fst x)) = Inr s \<and>
        ev = EvChat (judge_model t) (judge_messages t s) (ollama_options t) (Inr (snd x)))"

text \<open>The judge answers every call, with a response that has a message with a content.\<close>

definition judge_answers :: "env \<Rightarrow> tester \<Rightarrow> bool" where
  "judge_answers w t =
     (\<forall>h c. \<exists>resp m x. client_chat w h (judge_model t) c (ollama_options t) = Inr resp \<and>
        subscript resp (PStr ''message'') = Inr m \<and> subscript m (PStr ''content'') = Inr x)"

text \<open>A call of the judge whose prompt is rendered from one of the given pairs.\<close>

definition rendered_from :: "env \<Rightarrow> tester \<Rightarrow> (pyval \<times> pyval) list \<Rightarrow> event \<Rightarrow> bool" where
  "rendered_from w t ps ev =
     (\<exists>pa \<in> set ps. \<exists>s res. render_judge_prompt w t (fst pa) (snd pa) = Inr s \<and>
        ev = EvChat (judge_model t) (judge_messages t s) (ollama_options t) res)"

text \<open>A read of a file object.\<close>

fun is_read :: "event \<Rightarrow> bool" where
  "is_read (EvRead f r) = True"
| "is_read ev = False"

text \<open>The events that only the conversation driver produces.\<close>

fun is_driver_event :: "event \<Rightarrow> bool" where
  "is_driver_event (EvDataManager r) = True"
| "is_driver_event (EvGetQuestion q r) = True"
| "is_driver_event (EvGetImages q r) = True"
| "is_driver_event ev = False"

text \<open>Events that are neither an unload signal nor a reading of the clock.\<close>

definition driver_only :: "event \<Rightarrow> bool" where
  "driver_only ev = (\<not> is_unload ev \<and> \<not> is_time ev)"

text \<open>The events of the second half of a run: readings of the clock and events of the judge.\<close>

definition judge_phase_event :: "env \<Rightarrow> tester \<Rightarrow> event \<Rightarrow> bool" where
  "judge_phase_event w t ev = (is_time ev \<or> judge_event w t ev)"

text \<open>
  A judge response is parsed to a value: it has a message with a content that is text, and
  \<^verbatim>\<open>json.loads\<close> returns the value on that text.
\<close>

definition parsed_by :: "env \<Rightarrow> pyval \<Rightarrow> pyval \<Rightarrow> bool" where
  "parsed_by w j v =
     (\<exists>m s. subscript j (PStr ''message'') = Inr m \<and>
        subscript m (PStr ''content'') = Inr (PStr s) \<and> json_loads w s = Inr v)"

section \<open>Properties of the model\<close>

subsection \<open>Substrings\<close>

lemma is_prefix_iff: "is_prefix p s \<longleftrightarrow> (\<exists>post. s = p @ post)"
  by (induction p s rule: is_prefix.induct) auto

lemma str_contains_iff: "str_contains s text \<longleftrightarrow> (\<exists>pre post. s = pre @ text @ post)"
proof (induction s)
  case Nil
  then show ?case by auto
next
  case (Cons c cs)
  show ?case
  proof
    assume "str_contains (c # cs) text"
    then consider "is_prefix text (c # cs)" | "str_contains cs text" by auto
    then show "\<exists>pre post. c # cs = pre @ text @ post"
    proof cases
      case 1
      then obtain post where "c # cs = text @ post" by (auto simp: is_prefix_iff)
      then have "c # cs = [] @ text @ post" by simp
      then show ?thesis by blast
    next
      case 2
      then obtain pre post where "cs = pre @ text @ post" using Cons.IH by auto
      then have "c # cs = (c # pre) @ text @ post" by simp
      then show ?thesis by blast
    qed
  next
    assume "\<exists>pre post. c # cs = pre @ text @ post"
    then obtain pre post where eq: "c # cs = pre @ text @ post" by auto
    show "str_contains (c # cs) text"
    proof (cases pre)
      case Nil
      then have "is_prefix text (c # cs)" using eq by (auto simp: is_prefix_iff)
      then show ?thesis by simp
    next
      case (Cons d ds)
      then have "cs = ds @ text @ post" using eq by simp
      then show ?thesis using Cons.IH by auto
    qed
  qed
qed

subsection \<open>The judge pipeline\<close>

lemma record_event_simps [simp]:
  "trace (record_event st ev) = trace st @ [ev]"
  "loaded (record_event st ev) = loaded st"
  "objs (record_event st ev) = objs st"
  "next_addr (record_event st ev) = next_addr st"
  by (simp_all add: record_event_def)

lemma render_judge_prompt_Inr:
  "render_judge_prompt w t p a = Inr s \<Longrightarrow>
     \<exists>q c. str_format w (judge_prompt t) (judge_template_args t q c) = Inr s"
  by (auto simp: render_judge_prompt_def split: sum.splits)

lemma judge_pair_frame:
  "loaded (snd (judge_pair w t p a st)) = loaded st"
  "objs (snd (judge_pair w t p a st)) = objs st"
  "next_addr (snd (judge_pair w t p a st)) = next_addr st"
  by (auto simp: judge_pair_def do_chat_def do_log_def Let_def split: sum.splits prod.splits)

lemma judge_pair_trace:
  "\<exists>new. trace (snd (judge_pair w t p a st)) = trace st @ new \<and> list_all (judge_event w t) new"
proof (cases "render_judge_prompt w t p a")
  case (Inl e)
  then show ?thesis by (simp add: judge_pair_def)
next
  case (Inr s)
  then obtain q c where "str_format w (judge_prompt t) (judge_template_args t q c) = Inr s"
    using render_judge_prompt_Inr by blast
  then have "judge_event w t (EvChat (judge_model t) (judge_messages t s) (ollama_options t) r)" for r
    by (auto simp: judge_event_def)
  then show ?thesis using Inr
    by (auto simp: judge_pair_def do_chat_def do_log_def Let_def judge_event_def
        split: sum.splits prod.splits)
qed

lemma judge_pair_uniform:
  assumes "trace st2 = trace st"
  shows "fst (judge_pair w t p a st2) = fst (judge_pair w t p a st) \<and>
         trace (snd (judge_pair w t p a st2)) = trace (snd (judge_pair w t p a st))"
  using assms
  by (auto simp: judge_pair_def do_chat_def do_log_def Let_def split: sum.splits prod.splits)

lemma judge_pair_success:
  assumes "judge_pair w t p a st = (Inr resp, st')"
  shows "\<exists>s. render_judge_prompt w t p a = Inr s \<and>
           filter is_chat (new_events st st') =
             [EvChat (judge_model t) (judge_messages t s) (ollama_options t) (Inr resp)]"
  using assms
  by (auto simp: judge_pair_def do_chat_def do_log_def Let_def new_events_def
      split: sum.splits prod.splits)

lemma judge_pairs_trace:
  "\<exists>new. trace (snd (judge_pairs w t ps js st)) = trace st @ new \<and> list_all (judge_event w t) new"
proof (induction ps arbitrary: js st)
  case Nil
  then show ?case by simp
next
  case (Cons pa ps)
  obtain r st1 where jp: "judge_pair w t (fst pa) (snd pa) st = (r, st1)"
    by (cases "judge_pair w t (fst pa) (snd pa) st") auto
  obtain new1 where n1: "trace st1 = trace st @ new1" "list_all (judge_event w t) new1"
    using judge_pair_trace[of w t "fst pa" "snd pa" st] jp by auto
  show ?case
  proof (cases r)
    case (Inl e)
    then show ?thesis using jp n1 by auto
  next
    case (Inr resp)
    obtain new2 where n2:
      "trace (snd (judge_pairs w t ps (js @ [resp]) st1)) = trace st1 @ new2"
      "list_all (judge_event w t) new2"
      using Cons.IH[of "js @ [resp]" st1] by auto
    have "trace (snd (judge_pairs w t (pa # ps) js st)) = trace st @ (new1 @ new2)"
      using jp Inr n1 n2 by simp
    moreover have "list_all (judge_event w t) (new1 @ new2)" using n1 n2 by simp
    ultimately show ?thesis by blast
  qed
qed

lemma judge_pairs_uniform:
  "trace st2 = trace st \<Longrightarrow>
     fst (judge_pairs w t ps js st2) = fst (judge_pairs w t ps js st) \<and>
     trace (snd (judge_pairs w t ps js st2)) = trace (snd (judge_pairs w t ps js st))"
proof (induction ps arbitrary: js st st2)
  case Nil
  then show ?case by simp
next
  case (Cons pa ps)
  obtain r st1 where jp: "judge_pair w t (fst pa) (snd pa) st = (r, st1)"
    by (cases "judge_pair w t (fst pa) (snd pa) st") auto
  obtain r2 st21 where jp2: "judge_pair w t (fst pa) (snd pa) st2 = (r2, st21)"
    by (cases "judge_pair w t (fst pa) (snd pa) st2") auto
  have eq: "r2 = r" "trace st21 = trace st1"
    using judge_pair_uniform[OF Cons.prems, of w t "fst pa" "snd pa"] jp jp2 by simp_all
  show ?case
  proof (cases r)
    case (Inl e)
    then show ?thesis using jp jp2 eq by simp
  next
    case (Inr resp)
    then show ?thesis using jp jp2 eq Cons.IH[OF eq(2), of "js @ [resp]"] by simp
  qed
qed

lemma loop_outcome_Suc_Suc [simp]: "loop_outcome (Suc (Suc n)) r = loop_outcome n r"
  by (cases r) (simp_all add: loop_outcome_def)

lemma loop_outcome_Inl [simp]: "loop_outcome n (Inl e) = Inl e"
  by (simp add: loop_outcome_def)

lemma pairing_loop_Nil:
  "objs st a = PList [] \<Longrightarrow> pairing_loop w t a js st = (Inr js, st)"
  by (subst pairing_loop.simps) simp

lemma pairing_loop_single:
  "objs st a = PList [p] \<Longrightarrow>
     pairing_loop w t a js st = (Inl IndexError, st\<lparr>objs := (objs st)(a := PList [])\<rparr>)"
  by (subst pairing_loop.simps) (simp add: obj_pop0_def)

lemma pairing_loop_pair:
  "objs st a = PList (p # q # rest) \<Longrightarrow>
     pairing_loop w t a js st =
       (case judge_pair w t p q (st\<lparr>objs := (objs st)(a := PList rest)\<rparr>) of
          (Inl e, st3) \<Rightarrow> (Inl e, st3)
        | (Inr response, st3) \<Rightarrow> pairing_loop w t a (js @ [response]) st3)"
  by (subst pairing_loop.simps) (simp add: obj_pop0_def)

lemma pairing_loop_list:
  "objs st a = PList msgs \<Longrightarrow>
     fst (pairing_loop w t a js st) =
       loop_outcome (length msgs) (fst (judge_pairs w t (pairs_of msgs) js st)) \<and>
     trace (snd (pairing_loop w t a js st)) = trace (snd (judge_pairs w t (pairs_of msgs) js st)) \<and>
     loaded (snd (pairing_loop w t a js st)) = loaded st \<and>
     next_addr (snd (pairing_loop w t a js st)) = next_addr st \<and>
     (\<forall>b. b \<noteq> a \<longrightarrow> objs (snd (pairing_loop w t a js st)) b = objs st b) \<and>
     (\<forall>js'. fst (judge_pairs w t (pairs_of msgs) js st) = Inr js' \<longrightarrow>
         objs (snd (pairing_loop w t a js st)) a = PList [])"
proof (induction msgs arbitrary: st js rule: pairs_of.induct)
  case (1 p q rest)
  let ?st2 = "st\<lparr>objs := (objs st)(a := PList rest)\<rparr>"
  obtain r st3 where jp2: "judge_pair w t p q ?st2 = (r, st3)"
    by (cases "judge_pair w t p q ?st2") auto
  obtain r1 s1 where jp1: "judge_pair w t p q st = (r1, s1)"
    by (cases "judge_pair w t p q st") auto
  have "trace ?st2 = trace st" by simp
  from judge_pair_uniform[OF this, of w t p q] jp1 jp2
  have eq: "r1 = r" "trace st3 = trace s1" by simp_all
  have fr3: "loaded st3 = loaded st" "objs st3 = (objs st)(a := PList rest)" "next_addr st3 = next_addr st"
    using judge_pair_frame[of w t p q ?st2] jp2 by simp_all
  have loop: "pairing_loop w t a js st =
      (case r of Inl e \<Rightarrow> (Inl e, st3) | Inr response \<Rightarrow> pairing_loop w t a (js @ [response]) st3)"
    using pairing_loop_pair[OF "1.prems", of w t js] jp2 by (simp split: sum.splits)
  show ?case
  proof (cases r)
    case (Inl e)
    then show ?thesis using loop jp1 eq fr3 by simp
  next
    case (Inr resp)
    have o3: "objs st3 a = PList rest" using fr3 by simp
    note ih = "1.IH"[OF o3, of "js @ [resp]"]
    have un: "fst (judge_pairs w t (pairs_of rest) (js @ [resp]) st3) =
                fst (judge_pairs w t (pairs_of rest) (js @ [resp]) s1)"
             "trace (snd (judge_pairs w t (pairs_of rest) (js @ [resp]) st3)) =
                trace (snd (judge_pairs w t (pairs_of rest) (js @ [resp]) s1))"
      using judge_pairs_uniform[OF eq(2), of w t "pairs_of rest" "js @ [resp]"] by simp_all
    have jps: "judge_pairs w t (pairs_of (p # q # rest)) js st =
                 judge_pairs w t (pairs_of rest) (js @ [resp]) s1"
      using jp1 eq Inr by simp
    show ?thesis
      using loop Inr ih un jps fr3 by simp
  qed
next
  case 3
  then show ?case by (simp add: pairing_loop_Nil loop_outcome_def)
next
  case (2 v)
  then show ?case by (simp add: pairing_loop_single loop_outcome_def)
qed

lemma new_events_append [simp]: "trace st' = trace st @ new \<Longrightarrow> new_events st st' = new"
  by (simp add: new_events_def)

lemma objs_update_same: "objs st a = v \<Longrightarrow> st\<lparr>objs := (objs st)(a := v)\<rparr> = st"
  by (cases st) auto

lemma drop_system_list:
  assumes "objs st a = PList msgs"
  shows "drop_system st a =
           (case judged_part msgs of
              Inl e \<Rightarrow> Inl e
            | Inr body \<Rightarrow> Inr (st\<lparr>objs := (objs st)(a := PList body)\<rparr>))"
proof (cases msgs)
  case Nil
  then show ?thesis using assms objs_update_same[of st a "PList []"]
    by (simp add: drop_system_def)
next
  case (Cons m ms)
  have "st\<lparr>objs := (objs st)(a := PList (m # ms))\<rparr> = st"
    using assms Cons by (simp add: objs_update_same)
  then show ?thesis using assms Cons
    by (auto simp: drop_system_def seq_index_def obj_pop0_def split: sum.splits)
qed

lemma drop_system_frame:
  "drop_system st a = Inr st' \<Longrightarrow>
     trace st' = trace st \<and> loaded st' = loaded st \<and> next_addr st' = next_addr st \<and>
     (\<forall>b. b \<noteq> a \<longrightarrow> objs st' b = objs st b) \<and>
     ((\<forall>xs. objs st a \<noteq> PList xs) \<longrightarrow> objs st' a = objs st a)"
  by (auto simp: drop_system_def obj_pop0_def split: sum.splits if_splits pyval.splits list.splits)

lemma pairing_loop_nonlist:
  assumes "\<forall>xs. objs st a \<noteq> PList xs"
  shows "snd (pairing_loop w t a js st) = st \<and> (\<forall>js'. fst (pairing_loop w t a js st) = Inr js' \<longrightarrow> js' = js)"
  using assms
  by (subst pairing_loop.simps, subst (2) pairing_loop.simps)
     (auto simp: obj_pop0_def split: pyval.splits list.splits)

lemma evaluate_turns_list:
  assumes d: "deref st r = Inr (PList msgs)" and jp: "judged_part msgs = Inr body"
  shows "fst (evaluate_turns w t r st) =
           loop_outcome (length body) (fst (judge_pairs w t (pairs_of body) [] st)) \<and>
         trace (snd (evaluate_turns w t r st)) = trace (snd (judge_pairs w t (pairs_of body) [] st)) \<and>
         loaded (snd (evaluate_turns w t r st)) = loaded st \<and>
         next_addr (snd (evaluate_turns w t r st)) = Suc (next_addr st) \<and>
         (\<forall>b. b \<noteq> next_addr st \<longrightarrow> objs (snd (evaluate_turns w t r st)) b = objs st b) \<and>
         (\<forall>js'. fst (judge_pairs w t (pairs_of body) [] st) = Inr js' \<longrightarrow>
            objs (snd (evaluate_turns w t r st)) (next_addr st) = PList [])"
proof -
  let ?a = "next_addr st"
  let ?st1 = "st\<lparr>objs := (objs st)(?a := PList msgs), next_addr := Suc ?a\<rparr>"
  let ?st2 = "?st1\<lparr>objs := (objs ?st1)(?a := PList body)\<rparr>"
  have ds: "drop_system ?st1 ?a = Inr ?st2"
    using drop_system_list[of ?st1 ?a msgs] jp by simp
  have ev: "evaluate_turns w t r st = pairing_loop w t ?a [] ?st2"
    using d ds by (simp add: evaluate_turns_def alloc_def)
  have o2: "objs ?st2 ?a = PList body" by simp
  have tr: "trace ?st2 = trace st" by simp
  note pl = pairing_loop_list[OF o2, of w t "[]"]
  note un = judge_pairs_uniform[OF tr, of w t "pairs_of body" "[]"]
  show ?thesis using ev pl un by simp
qed

lemma evaluate_turns_bad_first:
  assumes d: "deref st r = Inr (PList msgs)" and jp: "judged_part msgs = Inl e"
  shows "fst (evaluate_turns w t r st) = Inl e \<and>
         trace (snd (evaluate_turns w t r st)) = trace st"
proof -
  let ?a = "next_addr st"
  let ?st1 = "st\<lparr>objs := (objs st)(?a := PList msgs), next_addr := Suc ?a\<rparr>"
  have ds: "drop_system ?st1 ?a = Inl e"
    using drop_system_list[of ?st1 ?a msgs] jp by simp
  show ?thesis using d ds by (simp add: evaluate_turns_def alloc_def)
qed

lemma evaluate_turns_trace:
  "\<exists>new. trace (snd (evaluate_turns w t r st)) = trace st @ new \<and> list_all (judge_event w t) new"
proof (cases "deref st r")
  case (Inl e)
  then show ?thesis by (simp add: evaluate_turns_def)
next
  case (Inr v)
  show ?thesis
  proof (cases "\<exists>msgs. v = PList msgs")
    case True
    then obtain msgs where v: "v = PList msgs" by auto
    show ?thesis
    proof (cases "judged_part msgs")
      case (Inl e)
      then show ?thesis using evaluate_turns_bad_first[of st r msgs e w t] Inr v by simp
    next
      case body: (Inr body)
      from evaluate_turns_list[of st r msgs body w t] Inr v body
      have "trace (snd (evaluate_turns w t r st)) = trace (snd (judge_pairs w t (pairs_of body) [] st))"
        by simp
      then show ?thesis using judge_pairs_trace[of w t "pairs_of body" "[]" st] by simp
    qed
  next
    case False
    let ?a = "next_addr st"
    show ?thesis
    proof (cases "slice_all v")
      case (Inl e)
      then show ?thesis using Inr by (simp add: evaluate_turns_def)
    next
      case c: (Inr c)
      have nl: "\<forall>xs. c \<noteq> PList xs" using c False by (cases v) auto
      let ?st1 = "st\<lparr>objs := (objs st)(?a := c), next_addr := Suc ?a\<rparr>"
      show ?thesis
      proof (cases "drop_system ?st1 ?a")
        case (Inl e)
        then show ?thesis using Inr c by (simp add: evaluate_turns_def alloc_def)
      next
        case st2: (Inr st2)
        have f: "trace st2 = trace st" "\<forall>xs. objs st2 ?a \<noteq> PList xs"
          using drop_system_frame[OF st2] nl by simp_all
        have "evaluate_turns w t r st = pairing_loop w t ?a [] st2"
          using Inr c st2 by (simp add: evaluate_turns_def alloc_def)
        then show ?thesis using pairing_loop_nonlist[OF f(2), of w t "[]"] f(1) by simp
      qed
    qed
  qed
qed

lemma pairs_of_index:
  "length msgs = 2 * n \<Longrightarrow>
     length (pairs_of msgs) = n \<and>
     (\<forall>i<n. pairs_of msgs ! i = (msgs ! (2 * i), msgs ! (2 * i + 1)))"
proof (induction msgs arbitrary: n rule: pairs_of.induct)
  case (1 p a rest)
  then obtain m where n: "n = Suc m" by (cases n) auto
  then have "length rest = 2 * m" using "1.prems" by simp
  from "1.IH"[OF this] have ih: "length (pairs_of rest) = m"
    "\<And>i. i < m \<Longrightarrow> pairs_of rest ! i = (rest ! (2 * i), rest ! (2 * i + 1))" by auto
  show ?case
  proof (intro conjI allI impI)
    show "length (pairs_of (p # a # rest)) = n" using ih n by simp
  next
    fix i assume "i < n"
    show "pairs_of (p # a # rest) ! i = ((p # a # rest) ! (2 * i), (p # a # rest) ! (2 * i + 1))"
    proof (cases i)
      case 0
      then show ?thesis by simp
    next
      case (Suc j)
      then have "j < m" using \<open>i < n\<close> n by simp
      then show ?thesis using ih(2)[of j] Suc by simp
    qed
  qed
next
  case 3
  then show ?case by simp
next
  case (2 v)
  then show ?case by simp
qed

lemma judge_pairs_success:
  "judge_pairs w t ps js st = (Inr js', st') \<Longrightarrow>
     \<exists>rs. js' = js @ rs \<and> length rs = length ps \<and>
       list_all2 (judged_from w t) (filter is_chat (new_events st st')) (zip ps rs)"
proof (induction ps arbitrary: js st)
  case Nil
  then show ?case by (simp add: new_events_def)
next
  case (Cons pa ps)
  obtain r st1 where jp: "judge_pair w t (fst pa) (snd pa) st = (r, st1)"
    by (cases "judge_pair w t (fst pa) (snd pa) st") auto
  show ?case
  proof (cases r)
    case (Inl e)
    then show ?thesis using Cons.prems jp by simp
  next
    case (Inr resp)
    then have rest: "judge_pairs w t ps (js @ [resp]) st1 = (Inr js', st')"
      using Cons.prems jp by simp
    from Cons.IH[OF this] obtain rs where rs: "js' = (js @ [resp]) @ rs" "length rs = length ps"
      "list_all2 (judged_from w t) (filter is_chat (new_events st1 st')) (zip ps rs)" by auto
    obtain n1 where n1: "trace st1 = trace st @ n1"
      using judge_pair_trace[of w t "fst pa" "snd pa" st] jp by auto
    obtain n2 where n2: "trace st' = trace st1 @ n2"
      using judge_pairs_trace[of w t ps "js @ [resp]" st1] rest by auto
    have ne: "new_events st st' = new_events st st1 @ new_events st1 st'"
      using n1 n2 by simp
    obtain s where s: "render_judge_prompt w t (fst pa) (snd pa) = Inr s"
      "filter is_chat (new_events st st1) =
         [EvChat (judge_model t) (judge_messages t s) (ollama_options t) (Inr resp)]"
      using judge_pair_success[of w t "fst pa" "snd pa" st resp st1] jp Inr by auto
    have "judged_from w t (EvChat (judge_model t) (judge_messages t s) (ollama_options t) (Inr resp)) (pa, resp)"
      using s(1) by (auto simp: judged_from_def)
    then have "list_all2 (judged_from w t) (filter is_chat (new_events st st')) (zip (pa # ps) (resp # rs))"
      using ne s(2) rs(3) by simp
    moreover have "js' = js @ (resp # rs)" using rs(1) by simp
    moreover have "length (resp # rs) = length (pa # ps)" using rs(2) by simp
    ultimately show ?thesis by blast
  qed
qed

lemma judge_pair_total:
  assumes "judge_answers w t" and "render_judge_prompt w t p a = Inr s"
  shows "\<exists>resp. fst (judge_pair w t p a st) = Inr resp"
proof -
  let ?h = "trace (do_log (do_log st Debug ''system > %s'' [PStr (judge_system_prompt t)]) Info ''> %s'' [PStr s])"
  obtain resp m x where "client_chat w ?h (judge_model t) (judge_messages t s) (ollama_options t) = Inr resp"
    "subscript resp (PStr ''message'') = Inr m" "subscript m (PStr ''content'') = Inr x"
    using assms(1) unfolding judge_answers_def by blast
  then show ?thesis using assms(2)
    by (simp add: judge_pair_def do_chat_def Let_def)
qed

lemma judge_pairs_total:
  assumes "judge_answers w t"
    and "\<forall>pa \<in> set ps. \<exists>s. render_judge_prompt w t (fst pa) (snd pa) = Inr s"
  shows "\<exists>js'. fst (judge_pairs w t ps js st) = Inr js'"
  using assms(2)
proof (induction ps arbitrary: js st)
  case Nil
  then show ?case by simp
next
  case (Cons pa ps)
  obtain s where "render_judge_prompt w t (fst pa) (snd pa) = Inr s" using Cons.prems by auto
  from judge_pair_total[OF assms(1) this, of st]
  obtain resp where r: "fst (judge_pair w t (fst pa) (snd pa) st) = Inr resp" by auto
  obtain st1 where jp: "judge_pair w t (fst pa) (snd pa) st = (Inr resp, st1)"
    using r by (cases "judge_pair w t (fst pa) (snd pa) st") auto
  have "\<forall>pa \<in> set ps. \<exists>s. render_judge_prompt w t (fst pa) (snd pa) = Inr s"
    using Cons.prems by simp
  from Cons.IH[OF this, of "js @ [resp]" st1] show ?case using jp by simp
qed

lemma new_events_cong: "trace a = trace b \<Longrightarrow> new_events st a = new_events st b"
  by (simp add: new_events_def)

subsection \<open>One judgement per pair, in order\<close>

text \<open>
  Claim C2. Take a transcript of length \<open>2 * n\<close> whose first message is not a system message
  (the judged part is the whole transcript). Then \<^verbatim>\<open>evaluate_turns\<close> returns or raises
  exactly as judging the pairs \<open>(msgs ! (2 * i), msgs ! (2 * i + 1))\<close> one after the other
  does; it returns whenever the judge answers every call and every pair can be rendered;
  and when it returns, it returns \<open>n\<close> responses, it has called the client \<open>n\<close> times, and
  the \<open>i\<close>-th call carries the prompt rendered from the \<open>i\<close>-th pair and returned the
  \<open>i\<close>-th response.
\<close>

theorem evaluate_turns_one_judgement_per_pair:
  assumes d: "deref st r = Inr (PList msgs)" and len: "length msgs = 2 * n"
    and nosys: "judged_part msgs = Inr msgs"
  shows "fst (evaluate_turns w t r st) = fst (judge_pairs w t (pairs_of msgs) [] st) \<and>
         (judge_answers w t \<and>
            (\<forall>i<n. \<exists>s. render_judge_prompt w t (msgs ! (2 * i)) (msgs ! (2 * i + 1)) = Inr s)
          \<longrightarrow> (\<exists>js. fst (evaluate_turns w t r st) = Inr js)) \<and>
         (\<forall>js. fst (evaluate_turns w t r st) = Inr js \<longrightarrow>
            length js = n \<and>
            length (filter is_chat (new_events st (snd (evaluate_turns w t r st)))) = n \<and>
            (\<forall>i<n. \<exists>s. render_judge_prompt w t (msgs ! (2 * i)) (msgs ! (2 * i + 1)) = Inr s \<and>
               filter is_chat (new_events st (snd (evaluate_turns w t r st))) ! i =
                 EvChat (judge_model t) (judge_messages t s) (ollama_options t) (Inr (js ! i))))"
proof -
  let ?ps = "pairs_of msgs"
  let ?ev = "evaluate_turns w t r st"
  let ?jp = "judge_pairs w t ?ps [] st"
  have idx: "length ?ps = n" "\<And>i. i < n \<Longrightarrow> ?ps ! i = (msgs ! (2 * i), msgs ! (2 * i + 1))"
    using pairs_of_index[OF len] by auto
  have el: "fst ?ev = loop_outcome (length msgs) (fst ?jp)" "trace (snd ?ev) = trace (snd ?jp)"
    using evaluate_turns_list[OF d nosys, of w t] by simp_all
  have fst_eq: "fst ?ev = fst ?jp"
    using el(1) len by (cases "fst ?jp") (simp_all add: loop_outcome_def)
  have ne: "new_events st (snd ?ev) = new_events st (snd ?jp)"
    using el(2) by (rule new_events_cong)
  have total: "\<exists>js. fst ?ev = Inr js"
    if ja: "judge_answers w t"
      and rd: "\<forall>i<n. \<exists>s. render_judge_prompt w t (msgs ! (2 * i)) (msgs ! (2 * i + 1)) = Inr s"
  proof -
    have "\<forall>pa \<in> set ?ps. \<exists>s. render_judge_prompt w t (fst pa) (snd pa) = Inr s"
    proof
      fix pa assume "pa \<in> set ?ps"
      then obtain i where i: "i < n" "pa = ?ps ! i" using idx(1) by (auto simp: in_set_conv_nth)
      then show "\<exists>s. render_judge_prompt w t (fst pa) (snd pa) = Inr s"
        using rd idx(2)[of i] by simp
    qed
    from judge_pairs_total[OF ja this, of "[]" st] show ?thesis using fst_eq by simp
  qed
  have success: "length js = n \<and> length (filter is_chat (new_events st (snd ?ev))) = n \<and>
      (\<forall>i<n. \<exists>s. render_judge_prompt w t (msgs ! (2 * i)) (msgs ! (2 * i + 1)) = Inr s \<and>
         filter is_chat (new_events st (snd ?ev)) ! i =
           EvChat (judge_model t) (judge_messages t s) (ollama_options t) (Inr (js ! i)))"
    if ok: "fst ?ev = Inr js" for js
  proof -
    have "?jp = (Inr js, snd ?jp)" using ok fst_eq by (cases ?jp) simp
    from judge_pairs_success[OF this] obtain rs where rs: "js = rs" "length rs = length ?ps"
      "list_all2 (judged_from w t) (filter is_chat (new_events st (snd ?jp))) (zip ?ps rs)"
      by auto
    let ?evs = "filter is_chat (new_events st (snd ?ev))"
    have l2: "list_all2 (judged_from w t) ?evs (zip ?ps js)" using rs ne by simp
    have lz: "length (zip ?ps js) = n" using rs idx(1) by simp
    have le: "length ?evs = n" using list_all2_lengthD[OF l2] lz by simp
    have "\<exists>s. render_judge_prompt w t (msgs ! (2 * i)) (msgs ! (2 * i + 1)) = Inr s \<and>
         ?evs ! i = EvChat (judge_model t) (judge_messages t s) (ollama_options t) (Inr (js ! i))"
      if i: "i < n" for i
    proof -
      have "judged_from w t (?evs ! i) (zip ?ps js ! i)"
        using list_all2_nthD[OF l2, of i] le i by simp
      moreover have "zip ?ps js ! i = ((msgs ! (2 * i), msgs ! (2 * i + 1)), js ! i)"
        using i idx rs by simp
      ultimately show ?thesis by (simp add: judged_from_def)
    qed
    then show ?thesis using rs idx(1) le by simp
  qed
  show ?thesis using fst_eq total success by blast
qed

lemma eval_chars [simp]:
  "is_name_char c = (let n = (of_char c :: nat) in
      (48 \<le> n \<and> n \<le> 57) \<or> (65 \<le> n \<and> n \<le> 90) \<or> (97 \<le> n \<and> n \<le> 122) \<or> c = CHR ''_'')"
  by (simp add: is_name_char_def)

lemma judge_answers_demo: "judge_answers (demo_world reply) t"
  by (simp add: judge_answers_def demo_world_def chat_reply_def)

lemma demo_render_hi:
  "render_judge_prompt (demo_world reply) replay_tester (user_msg ''hi'') (assistant_msg ''hello'')
     = Inr ''Q: hi A: hello''"
  by (simp add: render_judge_prompt_def demo_world_def replay_tester_def init_def user_msg_def
      assistant_msg_def judge_template_args_def format_named_def plain_name_def is_digit_def
      digit_of_def Let_def)

lemma demo_render_sum:
  "render_judge_prompt (demo_world reply) replay_tester (user_msg ''2+2?'') (assistant_msg ''4'')
     = Inr ''Q: 2+2? A: 4''"
  by (simp add: render_judge_prompt_def demo_world_def replay_tester_def init_def user_msg_def
      assistant_msg_def judge_template_args_def format_named_def plain_name_def is_digit_def
      digit_of_def Let_def)

lemma demo_judge_pair:
  "render_judge_prompt (demo_world reply) t p a = Inr s \<Longrightarrow>
     judge_pair (demo_world reply) t p a st =
       (Inr (chat_reply reply),
        st\<lparr>trace := trace st @
          [EvLog Debug ''system > %s'' [PStr (judge_system_prompt t)],
           EvLog Info ''> %s'' [PStr s],
           EvChat (judge_model t) (judge_messages t s) (ollama_options t) (Inr (chat_reply reply)),
           EvLog Info ''< %s'' [PStr reply]]\<rparr>)"
  by (simp add: judge_pair_def do_chat_def do_log_def record_event_def Let_def demo_world_def
      chat_reply_def)

text \<open>
  A transcript of two turns in the concrete world: two responses, the first call made
  from the first pair and the second call from the second pair.
\<close>

theorem evaluate_turns_one_judgement_per_pair_witness:
  "deref (stored two_turns) (Obj 0) = Inr (PList two_turns) \<and>
   length two_turns = 2 * 2 \<and>
   judged_part two_turns = Inr two_turns \<and>
   fst (evaluate_turns (demo_world rated_70) replay_tester (Obj 0) (stored two_turns)) =
     Inr [chat_reply rated_70, chat_reply rated_70] \<and>
   filter is_chat (new_events (stored two_turns)
       (snd (evaluate_turns (demo_world rated_70) replay_tester (Obj 0) (stored two_turns)))) ! 0 =
     EvChat ''llama3'' (judge_messages replay_tester ''Q: hi A: hello'')
       (PDict [(''temperature'', PInt 0)]) (Inr (chat_reply rated_70)) \<and>
   filter is_chat (new_events (stored two_turns)
       (snd (evaluate_turns (demo_world rated_70) replay_tester (Obj 0) (stored two_turns)))) ! 1 =
     EvChat ''llama3'' (judge_messages replay_tester ''Q: 2+2? A: 4'')
       (PDict [(''temperature'', PInt 0)]) (Inr (chat_reply rated_70))"
proof -
  let ?w = "demo_world rated_70"
  let ?st = "stored two_turns"
  let ?ev = "evaluate_turns ?w replay_tester (Obj 0) ?st"
  have h1: "deref ?st (Obj 0) = Inr (PList two_turns)"
    by (simp add: deref_def stored_def)
  have h2: "length two_turns = 2 * 2" by (simp add: two_turns_def)
  have h3: "judged_part two_turns = Inr two_turns"
    by (simp add: two_turns_def user_msg_def)
  note th = evaluate_turns_one_judgement_per_pair[OF h1 h2 h3, of ?w replay_tester]
  have jp: "fst (judge_pairs ?w replay_tester (pairs_of two_turns) [] ?st) =
      Inr [chat_reply rated_70, chat_reply rated_70]"
    by (simp add: two_turns_def demo_judge_pair[OF demo_render_hi] demo_judge_pair[OF demo_render_sum])
  have r: "fst ?ev = Inr [chat_reply rated_70, chat_reply rated_70]" using th jp by simp
  have i0: "two_turns ! (2 * 0) = user_msg ''hi''" "two_turns ! (2 * 0 + 1) = assistant_msg ''hello''"
    "two_turns ! (2 * 1) = user_msg ''2+2?''" "two_turns ! (2 * 1 + 1) = assistant_msg ''4''"
    by (simp_all add: two_turns_def)
  from th r have all: "\<forall>i<2. \<exists>s. render_judge_prompt ?w replay_tester (two_turns ! (2 * i)) (two_turns ! (2 * i + 1)) = Inr s \<and>
      filter is_chat (new_events ?st (snd ?ev)) ! i =
        EvChat (judge_model replay_tester) (judge_messages replay_tester s)
          (ollama_options replay_tester) (Inr ([chat_reply rated_70, chat_reply rated_70] ! i))"
    by blast
  have e0: "filter is_chat (new_events ?st (snd ?ev)) ! 0 =
     EvChat ''llama3'' (judge_messages replay_tester ''Q: hi A: hello'')
       (PDict [(''temperature'', PInt 0)]) (Inr (chat_reply rated_70))"
    using all[rule_format, of 0] i0 demo_render_hi[of rated_70]
    by (auto simp: replay_tester_def init_def)
  have e1: "filter is_chat (new_events ?st (snd ?ev)) ! 1 =
     EvChat ''llama3'' (judge_messages replay_tester ''Q: 2+2? A: 4'')
       (PDict [(''temperature'', PInt 0)]) (Inr (chat_reply rated_70))"
    using all[rule_format, of 1] i0 demo_render_sum[of rated_70]
    by (auto simp: replay_tester_def init_def)
  show ?thesis using h1 h2 h3 r e0 e1 by simp
qed

subsection \<open>Where the calls of the judge come from\<close>

lemma rendered_from_Cons:
  "rendered_from w t ps ev \<Longrightarrow> rendered_from w t (pa # ps) ev"
  "rendered_from w t [pa] ev \<Longrightarrow> rendered_from w t (pa # ps) ev"
  by (auto simp: rendered_from_def)

lemma judge_pair_sources:
  "\<exists>new. trace (snd (judge_pair w t p a st)) = trace st @ new \<and>
     list_all (\<lambda>ev. is_log ev \<or> rendered_from w t [(p, a)] ev) new"
  by (auto simp: judge_pair_def do_chat_def do_log_def Let_def rendered_from_def
      split: sum.splits prod.splits)

lemma judge_pairs_sources:
  "\<exists>new. trace (snd (judge_pairs w t ps js st)) = trace st @ new \<and>
     list_all (\<lambda>ev. is_log ev \<or> rendered_from w t ps ev) new"
proof (induction ps arbitrary: js st)
  case Nil
  then show ?case by simp
next
  case (Cons pa ps)
  obtain r st1 where jp: "judge_pair w t (fst pa) (snd pa) st = (r, st1)"
    by (cases "judge_pair w t (fst pa) (snd pa) st") auto
  obtain new1 where n1: "trace st1 = trace st @ new1"
    "list_all (\<lambda>ev. is_log ev \<or> rendered_from w t [pa] ev) new1"
    using judge_pair_sources[of w t "fst pa" "snd pa" st] jp by auto
  have n1': "list_all (\<lambda>ev. is_log ev \<or> rendered_from w t (pa # ps) ev) new1"
    using n1(2) rendered_from_Cons(2)[of w t pa _ ps] by (auto simp: list_all_iff)
  show ?case
  proof (cases r)
    case (Inl e)
    then show ?thesis using jp n1 n1' by auto
  next
    case (Inr resp)
    obtain new2 where n2:
      "trace (snd (judge_pairs w t ps (js @ [resp]) st1)) = trace st1 @ new2"
      "list_all (\<lambda>ev. is_log ev \<or> rendered_from w t ps ev) new2"
      using Cons.IH[of "js @ [resp]" st1] by auto
    have n2': "list_all (\<lambda>ev. is_log ev \<or> rendered_from w t (pa # ps) ev) new2"
      using n2(2) rendered_from_Cons(1)[of w t ps _ pa] by (auto simp: list_all_iff)
    have "trace (snd (judge_pairs w t (pa # ps) js st)) = trace st @ (new1 @ new2)"
      using jp Inr n1 n2 by simp
    moreover have "list_all (\<lambda>ev. is_log ev \<or> rendered_from w t (pa # ps) ev) (new1 @ new2)"
      using n1' n2' by simp
    ultimately show ?thesis by blast
  qed
qed

lemma is_log_not_chat: "is_log ev \<Longrightarrow> \<not> is_chat ev"
  by (cases ev) auto

subsection \<open>The system message\<close>

text \<open>
  Claim C3. When the first message of the transcript has the role \<^verbatim>\<open>system\<close>,
  \<^verbatim>\<open>evaluate_turns\<close> drops it before pairing: its outcome and its trace are those of
  judging the pairs of the remaining messages in order (with an \<^verbatim>\<open>IndexError\<close> at the end
  when their number is odd), every call of the client it makes carries a prompt rendered
  from a pair of the remaining messages, and the transcript passed in denotes the same
  list afterwards, system message included: the \<^verbatim>\<open>pop\<close>s consume a copy, the new object
  of the store, which is empty when \<^verbatim>\<open>evaluate_turns\<close> returns.
\<close>

theorem system_message_discarded:
  assumes d: "deref st r = Inr (PList (sys # rest))"
    and sys: "subscript sys (PStr ''role'') = Inr (PStr ''system'')"
    and alloc: "\<forall>a. r = Obj a \<longrightarrow> a < next_addr st"
  shows "fst (evaluate_turns w t r st) =
           loop_outcome (length rest) (fst (judge_pairs w t (pairs_of rest) [] st)) \<and>
         trace (snd (evaluate_turns w t r st)) =
           trace (snd (judge_pairs w t (pairs_of rest) [] st)) \<and>
         (\<forall>ev \<in> set (new_events st (snd (evaluate_turns w t r st))).
            is_chat ev \<longrightarrow> rendered_from w t (pairs_of rest) ev) \<and>
         deref (snd (evaluate_turns w t r st)) r = Inr (PList (sys # rest)) \<and>
         (\<forall>js. fst (evaluate_turns w t r st) = Inr js \<longrightarrow>
            objs (snd (evaluate_turns w t r st)) (next_addr st) = PList [])"
proof -
  let ?ev = "evaluate_turns w t r st"
  have jp: "judged_part (sys # rest) = Inr rest" using sys by simp
  note el = evaluate_turns_list[OF d jp, of w t]
  obtain new where new: "trace (snd (judge_pairs w t (pairs_of rest) [] st)) = trace st @ new"
    "list_all (\<lambda>ev. is_log ev \<or> rendered_from w t (pairs_of rest) ev) new"
    using judge_pairs_sources[of w t "pairs_of rest" "[]" st] by auto
  have ne: "new_events st (snd ?ev) = new" using el new(1) by simp
  have src: "\<forall>ev \<in> set (new_events st (snd ?ev)). is_chat ev \<longrightarrow> rendered_from w t (pairs_of rest) ev"
    using new(2) ne is_log_not_chat by (auto simp: list_all_iff)
  have same: "deref (snd ?ev) r = Inr (PList (sys # rest))"
  proof (cases r)
    case (Obj a)
    then have "a \<noteq> next_addr st" using alloc by auto
    then have "objs (snd ?ev) a = objs st a" using el by simp
    then show ?thesis using d Obj by (simp add: deref_def)
  next
    case (LoadedItem k)
    then show ?thesis using d el by (simp add: deref_def)
  qed
  have used: "objs (snd ?ev) (next_addr st) = PList []" if ok: "fst ?ev = Inr js" for js
  proof -
    have "fst (judge_pairs w t (pairs_of rest) [] st) = Inr js"
      using ok el by (cases "fst (judge_pairs w t (pairs_of rest) [] st)")
        (auto simp: loop_outcome_def split: if_splits)
    then show ?thesis using el by simp
  qed
  show ?thesis using el src same used by simp
qed

subsection \<open>A transcript with a message left over\<close>

text \<open>
  Claim C6. When the judged part of the transcript (the transcript without a leading
  system message) has odd length, \<^verbatim>\<open>evaluate_turns\<close> never returns normally: it raises
  what judging one of the complete pairs raises, and \<^verbatim>\<open>IndexError\<close> otherwise. When the
  judge answers every call and every complete pair can be rendered, it raises
  \<^verbatim>\<open>IndexError\<close>, and the working copy is empty then: the \<^verbatim>\<open>pop\<close> that failed is the one
  for the answer of the last prompt.
\<close>

theorem odd_transcript_raises:
  assumes d: "deref st r = Inr (PList msgs)" and jp: "judged_part msgs = Inr body"
    and odd: "odd (length body)"
  shows "(\<forall>js. fst (evaluate_turns w t r st) \<noteq> Inr js) \<and>
         fst (evaluate_turns w t r st) =
           (case fst (judge_pairs w t (pairs_of body) [] st) of
              Inl e \<Rightarrow> Inl e
            | Inr js \<Rightarrow> Inl IndexError) \<and>
         (judge_answers w t \<and>
            (\<forall>pa \<in> set (pairs_of body). \<exists>s. render_judge_prompt w t (fst pa) (snd pa) = Inr s)
          \<longrightarrow> fst (evaluate_turns w t r st) = Inl IndexError \<and>
              objs (snd (evaluate_turns w t r st)) (next_addr st) = PList [])"
proof -
  let ?ev = "evaluate_turns w t r st"
  let ?jp = "judge_pairs w t (pairs_of body) [] st"
  note el = evaluate_turns_list[OF d jp, of w t]
  have eq: "fst ?ev = (case fst ?jp of Inl e \<Rightarrow> Inl e | Inr js \<Rightarrow> Inl IndexError)"
    using el odd by (cases "fst ?jp") (simp_all add: loop_outcome_def)
  then have never: "\<forall>js. fst ?ev \<noteq> Inr js" by (cases "fst ?jp") simp_all
  have tot: "fst ?ev = Inl IndexError \<and> objs (snd ?ev) (next_addr st) = PList []"
    if ja: "judge_answers w t"
      and rd: "\<forall>pa \<in> set (pairs_of body). \<exists>s. render_judge_prompt w t (fst pa) (snd pa) = Inr s"
  proof -
    obtain js where "fst ?jp = Inr js" using judge_pairs_total[OF ja rd, of "[]" st] by auto
    then show ?thesis using eq el by simp
  qed
  show ?thesis using never eq tot by blast
qed

subsection \<open>How the judge is called\<close>

text \<open>
  Claim C5. Every call of the client that \<^verbatim>\<open>evaluate_turns\<close> makes goes to the judge model
  with the options \<^verbatim>\<open>ollama_options\<close> (the attribute \<^verbatim>\<open>ollama_judge_options\<close> is not what
  is passed), and with a conversation of exactly two messages: a system message that holds
  the judge system prompt and a user message that holds the judge prompt rendered by
  \<^verbatim>\<open>str.format\<close>.
\<close>

theorem judge_called_with_general_options:
  "\<forall>ev \<in> set (new_events st (snd (evaluate_turns w t r st))).
     is_chat ev \<longrightarrow>
       (\<exists>q a s res. str_format w (judge_prompt t) (judge_template_args t q a) = Inr s \<and>
          ev = EvChat (judge_model t)
                 [PDict [(''role'', PStr ''system''), (''content'', PStr (judge_system_prompt t))],
                  PDict [(''role'', PStr ''user''), (''content'', PStr s)]]
                 (ollama_options t) res)"
proof -
  obtain new where new: "trace (snd (evaluate_turns w t r st)) = trace st @ new"
    "list_all (judge_event w t) new"
    using evaluate_turns_trace[of w t r st] by auto
  have "new_events st (snd (evaluate_turns w t r st)) = new" using new(1) by simp
  then show ?thesis using new(2) is_log_not_chat
    by (auto simp: list_all_iff judge_event_def judge_messages_def)
qed

subsection \<open>The judge options in the template\<close>

text \<open>
  Claim C10. The constructor stores a tuple of one element, the argument
  \<^verbatim>\<open>ollama_judge_options\<close>, in the attribute of that name, and the prompt of every call of
  the judge is rendered with that tuple as the template variable \<^verbatim>\<open>options\<close>.
\<close>

theorem judge_options_are_a_tuple:
  "ollama_judge_options (init bm bo jm sp jsp jp jo q mt lm) = PTuple [jo] \<and>
   (\<forall>ev \<in> set (new_events st (snd (evaluate_turns w (init bm bo jm sp jsp jp jo q mt lm) r st))).
      is_chat ev \<longrightarrow>
        (\<exists>qc ac s res.
           str_format w (str_or jp JUDGE_PROMPT)
             [(''question'', qc), (''answer'', ac), (''options'', PTuple [jo])] = Inr s \<and>
           ev = EvChat jm (judge_messages (init bm bo jm sp jsp jp jo q mt lm) s) bo res))"
proof -
  let ?t = "init bm bo jm sp jsp jp jo q mt lm"
  obtain new where new: "trace (snd (evaluate_turns w ?t r st)) = trace st @ new"
    "list_all (judge_event w ?t) new"
    using evaluate_turns_trace[of w ?t r st] by auto
  have ne: "new_events st (snd (evaluate_turns w ?t r st)) = new" using new(1) by simp
  have f: "judge_prompt ?t = str_or jp JUDGE_PROMPT" "judge_model ?t = jm" "ollama_options ?t = bo"
    "judge_template_args ?t qc ac = [(''question'', qc), (''answer'', ac), (''options'', PTuple [jo])]"
    for qc ac
    by (simp_all add: init_def judge_template_args_def)
  have "\<exists>qc ac s res.
           str_format w (str_or jp JUDGE_PROMPT)
             [(''question'', qc), (''answer'', ac), (''options'', PTuple [jo])] = Inr s \<and>
           ev = EvChat jm (judge_messages ?t s) bo res"
    if "ev \<in> set new" "is_chat ev" for ev
  proof -
    have "judge_event w ?t ev" using that(1) new(2) by (simp add: list_all_iff)
    then show ?thesis using that(2) is_log_not_chat[of ev] f
      unfolding judge_event_def by metis
  qed
  moreover have "ollama_judge_options ?t = PTuple [jo]" by (simp add: init_def)
  ultimately show ?thesis using ne by simp
qed

subsection \<open>Concrete runs of the judge pipeline\<close>

lemma stored_simps [simp]:
  "trace (stored msgs) = []" "loaded (stored msgs) = None" "next_addr (stored msgs) = 1"
  "objs (stored msgs) 0 = PList msgs" "deref (stored msgs) (Obj 0) = Inr (PList msgs)"
  by (simp_all add: stored_def initial_state_def deref_def)

lemma replay_tester_simps [simp]:
  "judge_model replay_tester = ''llama3''" "model replay_tester = ''llama3''"
  "ollama_options replay_tester = PDict [(''temperature'', PInt 0)]"
  "ollama_judge_options replay_tester = PTuple [PDict [(''seed'', PInt 7)]]"
  "judge_system_prompt replay_tester = ''Rate it.''"
  "judge_prompt replay_tester = ''Q: {question} A: {answer}''"
  "load_messages_file replay_tester = Some (PyFile ''transcripts.json'')"
  by (simp_all add: replay_tester_def init_def)

lemma demo_judge_pairs_hi:
  "judge_pairs (demo_world reply) replay_tester [(user_msg ''hi'', assistant_msg ''hello'')] [] st =
     (Inr [chat_reply reply], st\<lparr>trace := trace st @ judge_events_hi reply\<rparr>)"
  by (simp add: demo_judge_pair[OF demo_render_hi] judge_events_hi_def)

lemma demo_evaluate_one_turn:
  assumes "judged_part msgs = Inr one_turn"
  shows "fst (evaluate_turns (demo_world reply) replay_tester (Obj 0) (stored msgs)) =
           Inr [chat_reply reply] \<and>
         new_events (stored msgs)
           (snd (evaluate_turns (demo_world reply) replay_tester (Obj 0) (stored msgs))) =
           judge_events_hi reply"
  using evaluate_turns_list[of "stored msgs" "Obj 0" msgs one_turn "demo_world reply" replay_tester] assms
  by (simp add: one_turn_def demo_judge_pairs_hi loop_outcome_def new_events_def del: judge_pairs.simps)

text \<open>
  Claim C3 on a transcript of a system message and one turn: one response, the trace holds
  the one call rendered from the turn, and the stored transcript is unchanged.
\<close>

theorem system_message_discarded_witness:
  "deref (stored (system_msg ''Be brief.'' # one_turn)) (Obj 0) =
     Inr (PList (system_msg ''Be brief.'' # one_turn)) \<and>
   subscript (system_msg ''Be brief.'') (PStr ''role'') = Inr (PStr ''system'') \<and>
   0 < next_addr (stored (system_msg ''Be brief.'' # one_turn)) \<and>
   fst (evaluate_turns (demo_world rated_70) replay_tester (Obj 0)
          (stored (system_msg ''Be brief.'' # one_turn))) = Inr [chat_reply rated_70] \<and>
   trace (snd (evaluate_turns (demo_world rated_70) replay_tester (Obj 0)
          (stored (system_msg ''Be brief.'' # one_turn)))) = judge_events_hi rated_70 \<and>
   deref (snd (evaluate_turns (demo_world rated_70) replay_tester (Obj 0)
          (stored (system_msg ''Be brief.'' # one_turn)))) (Obj 0) =
     Inr (PList (system_msg ''Be brief.'' # one_turn))"
proof -
  let ?st = "stored (system_msg ''Be brief.'' # one_turn)"
  have h1: "deref ?st (Obj 0) = Inr (PList (system_msg ''Be brief.'' # one_turn))" by simp
  have h2: "subscript (system_msg ''Be brief.'') (PStr ''role'') = Inr (PStr ''system'')"
    by (simp add: system_msg_def)
  have h3: "\<forall>a. Obj 0 = Obj a \<longrightarrow> a < next_addr ?st" by simp
  note th = system_message_discarded[OF h1 h2 h3, of "demo_world rated_70" replay_tester]
  have jp: "judge_pairs (demo_world rated_70) replay_tester (pairs_of one_turn) [] ?st =
      (Inr [chat_reply rated_70], ?st\<lparr>trace := trace ?st @ judge_events_hi rated_70\<rparr>)"
    by (simp add: one_turn_def demo_judge_pairs_hi del: judge_pairs.simps)
  show ?thesis using th h1 h2 jp by (simp add: loop_outcome_def one_turn_def del: judge_pairs.simps)
qed

text \<open>Claim C6 on a transcript of one turn and a prompt without an answer.\<close>

theorem odd_transcript_raises_witness:
  "deref (stored (one_turn @ [user_msg ''2+2?''])) (Obj 0) = Inr (PList (one_turn @ [user_msg ''2+2?''])) \<and>
   judged_part (one_turn @ [user_msg ''2+2?'']) = Inr (one_turn @ [user_msg ''2+2?'']) \<and>
   odd (length (one_turn @ [user_msg ''2+2?''])) \<and>
   fst (evaluate_turns (demo_world rated_70) replay_tester (Obj 0)
          (stored (one_turn @ [user_msg ''2+2?'']))) = Inl IndexError \<and>
   objs (snd (evaluate_turns (demo_world rated_70) replay_tester (Obj 0)
          (stored (one_turn @ [user_msg ''2+2?''])))) 1 = PList []"
proof -
  let ?msgs = "one_turn @ [user_msg ''2+2?'']"
  have h1: "deref (stored ?msgs) (Obj 0) = Inr (PList ?msgs)" by simp
  have h2: "judged_part ?msgs = Inr ?msgs" by (simp add: one_turn_def user_msg_def)
  have h3: "odd (length ?msgs)" by (simp add: one_turn_def)
  note th = odd_transcript_raises[OF h1 h2 h3, of "demo_world rated_70" replay_tester]
  have rd: "\<forall>pa \<in> set (pairs_of ?msgs).
      \<exists>s. render_judge_prompt (demo_world rated_70) replay_tester (fst pa) (snd pa) = Inr s"
    by (simp add: one_turn_def demo_render_hi)
  from th have "judge_answers (demo_world rated_70) replay_tester \<and>
      (\<forall>pa \<in> set (pairs_of ?msgs).
         \<exists>s. render_judge_prompt (demo_world rated_70) replay_tester (fst pa) (snd pa) = Inr s)
      \<longrightarrow> fst (evaluate_turns (demo_world rated_70) replay_tester (Obj 0) (stored ?msgs)) =
            Inl IndexError \<and>
          objs (snd (evaluate_turns (demo_world rated_70) replay_tester (Obj 0) (stored ?msgs)))
            (next_addr (stored ?msgs)) = PList []"
    by blast
  with rd judge_answers_demo[of rated_70 replay_tester]
  have "fst (evaluate_turns (demo_world rated_70) replay_tester (Obj 0) (stored ?msgs)) =
            Inl IndexError \<and>
        objs (snd (evaluate_turns (demo_world rated_70) replay_tester (Obj 0) (stored ?msgs)))
            (next_addr (stored ?msgs)) = PList []"
    by blast
  then show ?thesis using h1 h2 h3 by simp
qed

text \<open>
  Claim C5 on a transcript of one turn: the call carries the general options
  \<^verbatim>\<open>{'temperature': 0}\<close>, not the judge options \<^verbatim>\<open>{'seed': 7}\<close>.
\<close>

theorem judge_called_with_general_options_witness:
  "EvChat ''llama3'' (judge_messages replay_tester ''Q: hi A: hello'')
       (PDict [(''temperature'', PInt 0)]) (Inr (chat_reply rated_70))
     \<in> set (new_events (stored one_turn)
          (snd (evaluate_turns (demo_world rated_70) replay_tester (Obj 0) (stored one_turn)))) \<and>
   ollama_options replay_tester = PDict [(''temperature'', PInt 0)] \<and>
   ollama_judge_options replay_tester = PTuple [PDict [(''seed'', PInt 7)]] \<and>
   (\<exists>q a s res.
      str_format (demo_world rated_70) (judge_prompt replay_tester)
        (judge_template_args replay_tester q a) = Inr s \<and>
      EvChat ''llama3'' (judge_messages replay_tester ''Q: hi A: hello'')
          (PDict [(''temperature'', PInt 0)]) (Inr (chat_reply rated_70)) =
        EvChat (judge_model replay_tester)
          [PDict [(''role'', PStr ''system''), (''content'', PStr (judge_system_prompt replay_tester))],
           PDict [(''role'', PStr ''user''), (''content'', PStr s)]]
          (ollama_options replay_tester) res)"
proof -
  let ?e = "EvChat ''llama3'' (judge_messages replay_tester ''Q: hi A: hello'')
       (PDict [(''temperature'', PInt 0)]) (Inr (chat_reply rated_70))"
  let ?st = "stored one_turn"
  have jp: "judged_part one_turn = Inr one_turn" by (simp add: one_turn_def user_msg_def)
  have mem: "?e \<in> set (new_events ?st
      (snd (evaluate_turns (demo_world rated_70) replay_tester (Obj 0) ?st)))"
    using demo_evaluate_one_turn[OF jp, of rated_70] by (simp add: judge_events_hi_def)
  have chat: "is_chat ?e" by simp
  from judge_called_with_general_options[rule_format, OF mem chat] mem
  show ?thesis by simp
qed

text \<open>Claim C10 on the same run, with the constructor call written out.\<close>

theorem judge_options_are_a_tuple_witness:
  "EvChat ''llama3'' (judge_messages replay_tester ''Q: hi A: hello'')
       (PDict [(''temperature'', PInt 0)]) (Inr (chat_reply rated_70))
     \<in> set (new_events (stored one_turn)
          (snd (evaluate_turns (demo_world rated_70)
             (init ''llama3'' (PDict [(''temperature'', PInt 0)]) ''llama3'' None (Some ''Rate it.'')
                (Some ''Q: {question} A: {answer}'') (PDict [(''seed'', PInt 7)]) (PInt 0) 1
                (Some (PyFile ''transcripts.json'')))
             (Obj 0) (stored one_turn)))) \<and>
   ollama_judge_options
     (init ''llama3'' (PDict [(''temperature'', PInt 0)]) ''llama3'' None (Some ''Rate it.'')
        (Some ''Q: {question} A: {answer}'') (PDict [(''seed'', PInt 7)]) (PInt 0) 1
        (Some (PyFile ''transcripts.json''))) = PTuple [PDict [(''seed'', PInt 7)]] \<and>
   (\<exists>qc ac s res.
      format_named ''Q: {question} A: {answer}''
        [(''question'', qc), (''answer'', ac), (''options'', PTuple [PDict [(''seed'', PInt 7)]])] = Inr s \<and>
      EvChat ''llama3'' (judge_messages replay_tester ''Q: hi A: hello'')
          (PDict [(''temperature'', PInt 0)]) (Inr (chat_reply rated_70)) =
        EvChat ''llama3'' (judge_messages replay_tester s) (PDict [(''temperature'', PInt 0)]) res)"
proof -
  let ?e = "EvChat ''llama3'' (judge_messages replay_tester ''Q: hi A: hello'')
       (PDict [(''temperature'', PInt 0)]) (Inr (chat_reply rated_70))"
  let ?st = "stored one_turn"
  have jp: "judged_part one_turn = Inr one_turn" by (simp add: one_turn_def user_msg_def)
  have mem: "?e \<in> set (new_events ?st
      (snd (evaluate_turns (demo_world rated_70) replay_tester (Obj 0) ?st)))"
    using demo_evaluate_one_turn[OF jp, of rated_70] by (simp add: judge_events_hi_def)
  have chat: "is_chat ?e" by simp
  note th = judge_options_are_a_tuple[of "''llama3''" "PDict [(''temperature'', PInt 0)]" "''llama3''"
      None "Some ''Rate it.''" "Some ''Q: {question} A: {answer}''" "PDict [(''seed'', PInt 7)]"
      "PInt 0" 1 "Some (PyFile ''transcripts.json'')" ?st "demo_world rated_70" "Obj 0"]
  from th have a: "ollama_judge_options replay_tester = PTuple [PDict [(''seed'', PInt 7)]]"
    by (simp add: replay_tester_def)
  from th[THEN conjunct2, rule_format, OF mem[unfolded replay_tester_def] chat[unfolded replay_tester_def]]
  have b: "\<exists>qc ac s res.
      format_named ''Q: {question} A: {answer}''
        [(''question'', qc), (''answer'', ac), (''options'', PTuple [PDict [(''seed'', PInt 7)]])] = Inr s \<and>
      ?e = EvChat ''llama3'' (judge_messages replay_tester s) (PDict [(''temperature'', PInt 0)]) res"
    by (simp add: replay_tester_def demo_world_def)
  show ?thesis using mem a b by (simp add: replay_tester_def)
qed

subsection \<open>Loading and configuration\<close>

lemma load_messages_cached:
  "loaded st = Some doc \<Longrightarrow> load_messages w t st = (Inr doc, st)"
  by (simp add: load_messages_def)

lemma load_messages_effect:
  "objs (snd (load_messages w t st)) = objs st \<and>
   next_addr (snd (load_messages w t st)) = next_addr st \<and>
   (\<exists>new. trace (snd (load_messages w t st)) = trace st @ new \<and> list_all is_read new) \<and>
   (case fst (load_messages w t st) of
      Inr doc \<Rightarrow> loaded (snd (load_messages w t st)) = Some doc
    | Inl e \<Rightarrow> loaded (snd (load_messages w t st)) = loaded st)"
  by (auto simp: load_messages_def json_load_def do_read_def Let_def
      split: option.splits sum.splits prod.splits exn.splits)

text \<open>
  Claim C9. When the judge prompt template lacks \<^verbatim>\<open>{question}\<close> or lacks \<^verbatim>\<open>{answer}\<close>,
  \<^verbatim>\<open>check_config\<close> raises a \<^verbatim>\<open>ConfigurationError\<close> and has called nothing. When both
  markers occur in it, and either no transcript source is configured or the source loads
  to a value that is true (a list that is not empty), \<^verbatim>\<open>check_config\<close> returns normally.
  In every case the only calls it makes read the transcript file: no model is called.
\<close>

theorem check_config_markers:
  "((\<nexists>pre post. judge_prompt t = pre @ ''{question}'' @ post) \<or>
    (\<nexists>pre post. judge_prompt t = pre @ ''{answer}'' @ post)
      \<longrightarrow> (\<exists>msg. check_config w t st = (Some (ConfigurationError msg), st))) \<and>
   ((\<exists>pre post. judge_prompt t = pre @ ''{question}'' @ post) \<and>
    (\<exists>pre post. judge_prompt t = pre @ ''{answer}'' @ post) \<and>
    (load_messages_file t = None \<or>
     (\<exists>doc. fst (load_messages w t st) = Inr doc \<and> truthy doc))
      \<longrightarrow> fst (check_config w t st) = None) \<and>
   (\<forall>ev \<in> set (new_events st (snd (check_config w t st))). is_read ev)"
proof -
  have q: "str_contains (judge_prompt t) ''{question}'' \<longleftrightarrow>
      (\<exists>pre post. judge_prompt t = pre @ ''{question}'' @ post)"
    by (rule str_contains_iff)
  have a: "str_contains (judge_prompt t) ''{answer}'' \<longleftrightarrow>
      (\<exists>pre post. judge_prompt t = pre @ ''{answer}'' @ post)"
    by (rule str_contains_iff)
  have 1: "\<exists>msg. check_config w t st = (Some (ConfigurationError msg), st)"
    if "(\<nexists>pre post. judge_prompt t = pre @ ''{question}'' @ post) \<or>
        (\<nexists>pre post. judge_prompt t = pre @ ''{answer}'' @ post)"
    using that q a by (auto simp: check_config_def check_marker_def)
  have 2: "fst (check_config w t st) = None"
    if "(\<exists>pre post. judge_prompt t = pre @ ''{question}'' @ post) \<and>
        (\<exists>pre post. judge_prompt t = pre @ ''{answer}'' @ post) \<and>
        (load_messages_file t = None \<or>
         (\<exists>doc. fst (load_messages w t st) = Inr doc \<and> truthy doc))"
    using that q a
    by (auto simp: check_config_def check_marker_def split: prod.splits sum.splits)
  obtain new where new: "trace (snd (load_messages w t st)) = trace st @ new" "list_all is_read new"
    using load_messages_effect[of w t st] by auto
  have 3: "\<forall>ev \<in> set (new_events st (snd (check_config w t st))). is_read ev"
    using new
    by (auto simp: check_config_def new_events_def list_all_iff
        split: option.splits prod.splits sum.splits)
  show ?thesis using 1 2 3 by blast
qed

text \<open>What the model of \<^verbatim>\<open>json.loads\<close> returns on the texts of the concrete runs.\<close>

lemma loads_transcripts: "py_json_loads transcripts_text = Inr (PList [PList one_turn])"
  unfolding one_turn_def user_msg_def assistant_msg_def by code_simp

lemma loads_rated_70:
  "py_json_loads rated_70 =
     Inr (PDict [(''evaluation'', PStr ''ok''), (''total_rating'', PStr ''70''),
                 (''feedback'', PStr ''none'')])"
  by code_simp

lemma loads_not_json: "py_json_loads ''not json'' = Inl (JSONDecodeError ''invalid JSON'')"
  by code_simp

lemma loads_empty_array: "py_json_loads ''[]'' = Inr (PList [])"
  by code_simp

lemma demo_first_load:
  "trace st = [] \<or> trace st = [EvTime x] \<Longrightarrow> loaded st = None \<Longrightarrow>
     load_messages (demo_world reply) replay_tester st =
       (Inr (PList [PList one_turn]),
        st\<lparr>trace := trace st @ [EvRead (PyFile ''transcripts.json'') (Inr transcripts_text)],
           loaded := Some (PList [PList one_turn])\<rparr>)"
  by (auto simp: load_messages_def json_load_def do_read_def demo_world_def file_text_def
      record_event_def loads_transcripts Let_def)

text \<open>
  Claim C9 on a template without the answer marker, and on the tester that replays
  \<^verbatim>\<open>transcripts.json\<close>.
\<close>

theorem check_config_markers_witness:
  "(\<nexists>pre post. judge_prompt no_answer_tester = pre @ ''{answer}'' @ post) \<and>
   check_config (demo_world rated_70) no_answer_tester initial_state =
     (Some (ConfigurationError (''The judge prompt must contains '' @ [CHR 0x27] @ ''{answer}'' @ [CHR 0x27])),
      initial_state) \<and>
   (\<exists>pre post. judge_prompt replay_tester = pre @ ''{question}'' @ post) \<and>
   (\<exists>pre post. judge_prompt replay_tester = pre @ ''{answer}'' @ post) \<and>
   fst (load_messages (demo_world rated_70) replay_tester initial_state) = Inr (PList [PList one_turn]) \<and>
   truthy (PList [PList one_turn]) \<and>
   fst (check_config (demo_world rated_70) replay_tester initial_state) = None"
proof -
  let ?w = "demo_world rated_70"
  have na: "\<nexists>pre post. judge_prompt no_answer_tester = pre @ ''{answer}'' @ post"
    unfolding str_contains_iff[symmetric] by (simp add: no_answer_tester_def init_def)
  have q: "\<exists>pre post. judge_prompt replay_tester = pre @ ''{question}'' @ post"
    unfolding str_contains_iff[symmetric] by simp
  have a: "\<exists>pre post. judge_prompt replay_tester = pre @ ''{answer}'' @ post"
    unfolding str_contains_iff[symmetric] by simp
  have ld: "fst (load_messages ?w replay_tester initial_state) = Inr (PList [PList one_turn])"
    using demo_first_load[of initial_state _ rated_70] by (simp add: initial_state_def)
  have tr: "truthy (PList [PList one_turn])" by simp
  note th1 = check_config_markers[of no_answer_tester ?w initial_state]
  note th2 = check_config_markers[of replay_tester ?w initial_state]
  have r1: "check_config ?w no_answer_tester initial_state =
     (Some (ConfigurationError (''The judge prompt must contains '' @ [CHR 0x27] @ ''{answer}'' @ [CHR 0x27])),
      initial_state)"
    using th1 na by (auto simp: check_config_def check_marker_def no_answer_tester_def init_def)
  have r2: "fst (check_config ?w replay_tester initial_state) = None"
    using th2 q a ld tr by blast
  show ?thesis using na r1 q a ld tr r2 by blast
qed

subsection \<open>The phases of a run\<close>

lemma run_turn_effect:
  "loaded (snd (run_turn w t q quest n prompt ms st)) = loaded st \<and>
   objs (snd (run_turn w t q quest n prompt ms st)) = objs st \<and>
   next_addr (snd (run_turn w t q quest n prompt ms st)) = next_addr st \<and>
   (\<exists>new. trace (snd (run_turn w t q quest n prompt ms st)) = trace st @ new \<and>
      list_all driver_only new)"
  by (auto simp: run_turn_def do_chat_def do_log_def do_get_images_def Let_def driver_only_def
      split: sum.splits prod.splits if_splits)

lemma run_turns_loop_effect:
  "loaded (snd (run_turns_loop w t q quest n prompts ms st)) = loaded st \<and>
   objs (snd (run_turns_loop w t q quest n prompts ms st)) = objs st \<and>
   next_addr (snd (run_turns_loop w t q quest n prompts ms st)) = next_addr st \<and>
   (\<exists>new. trace (snd (run_turns_loop w t q quest n prompts ms st)) = trace st @ new \<and>
      list_all driver_only new)"
proof (induction prompts arbitrary: n ms st)
  case Nil
  then show ?case by simp
next
  case (Cons prompt prompts)
  obtain r st1 where rt: "run_turn w t q quest n prompt ms st = (r, st1)"
    by (cases "run_turn w t q quest n prompt ms st") auto
  from run_turn_effect[of w t q quest n prompt ms st] rt
  obtain new1 where e1: "loaded st1 = loaded st" "objs st1 = objs st" "next_addr st1 = next_addr st"
    "trace st1 = trace st @ new1" "list_all driver_only new1" by auto
  show ?case
  proof (cases r)
    case (Inl e)
    then show ?thesis using rt e1 by auto
  next
    case (Inr ms1)
    from Cons.IH[of "Suc n" ms1 st1]
    obtain new2 where e2:
      "loaded (snd (run_turns_loop w t q quest (Suc n) prompts ms1 st1)) = loaded st1"
      "objs (snd (run_turns_loop w t q quest (Suc n) prompts ms1 st1)) = objs st1"
      "next_addr (snd (run_turns_loop w t q quest (Suc n) prompts ms1 st1)) = next_addr st1"
      "trace (snd (run_turns_loop w t q quest (Suc n) prompts ms1 st1)) = trace st1 @ new2"
      "list_all driver_only new2" by auto
    have "trace (snd (run_turns_loop w t q quest n (prompt # prompts) ms st)) = trace st @ (new1 @ new2)"
      using rt Inr e1 e2 by simp
    moreover have "list_all driver_only (new1 @ new2)" using e1 e2 by simp
    ultimately show ?thesis using rt Inr e1 e2 by auto
  qed
qed

lemma run_turns_loopD:
  "run_turns_loop w t q quest n prompts ms st = (r, st') \<Longrightarrow>
     loaded st' = loaded st \<and> objs st' = objs st \<and> next_addr st' = next_addr st \<and>
     (\<exists>new. trace st' = trace st @ new \<and> list_all driver_only new)"
  using run_turns_loop_effect[of w t q quest n prompts ms st] by simp

lemma run_turns_effect:
  "loaded (snd (run_turns w t q st)) = loaded st \<and>
   (\<forall>a < next_addr st. objs (snd (run_turns w t q st)) a = objs st a) \<and>
   next_addr st \<le> next_addr (snd (run_turns w t q st)) \<and>
   (\<exists>new. trace (snd (run_turns w t q st)) = trace st @ new \<and> list_all driver_only new)"
  unfolding run_turns_def do_data_manager_def do_get_question_def do_read_def alloc_def Let_def
  by (auto simp: driver_only_def split: option.split sum.split prod.split dest!: run_turns_loopD)

lemma pairing_loop_frame:
  "loaded (snd (pairing_loop w t a js st)) = loaded st \<and>
   next_addr (snd (pairing_loop w t a js st)) = next_addr st \<and>
   (\<forall>b. b \<noteq> a \<longrightarrow> objs (snd (pairing_loop w t a js st)) b = objs st b)"
proof (cases "\<exists>msgs. objs st a = PList msgs")
  case True
  then obtain msgs where "objs st a = PList msgs" by auto
  from pairing_loop_list[OF this, of w t js] show ?thesis by simp
next
  case False
  then have "\<forall>xs. objs st a \<noteq> PList xs" by simp
  from pairing_loop_nonlist[OF this, of w t js] show ?thesis by simp
qed

lemma evaluate_turns_frame:
  "loaded (snd (evaluate_turns w t r st)) = loaded st \<and>
   (\<forall>b < next_addr st. objs (snd (evaluate_turns w t r st)) b = objs st b) \<and>
   next_addr st \<le> next_addr (snd (evaluate_turns w t r st))"
  unfolding evaluate_turns_def alloc_def
  by (auto simp: pairing_loop_frame split: sum.split prod.split dest!: drop_system_frame)

lemma judge_event_kinds:
  "judge_event w t ev \<Longrightarrow> \<not> is_unload ev \<and> \<not> is_time ev \<and> \<not> is_driver_event ev \<and> \<not> is_read ev"
  by (cases ev) (auto simp: judge_event_def)

lemma evaluate_turnsD:
  "evaluate_turns w t r st = (x, st') \<Longrightarrow>
     loaded st' = loaded st \<and> (\<forall>b < next_addr st. objs st' b = objs st b) \<and>
     next_addr st \<le> next_addr st' \<and>
     (\<exists>new. trace st' = trace st @ new \<and> list_all (judge_event w t) new)"
  using evaluate_turns_frame[of w t r st] evaluate_turns_trace[of w t r st] by simp

lemma judge_phase_effect:
  "loaded (snd (judge_phase w t msgs d st)) = loaded st \<and>
   (\<forall>b < next_addr st. objs (snd (judge_phase w t msgs d st)) b = objs st b) \<and>
   (\<exists>new. trace (snd (judge_phase w t msgs d st)) = trace st @ new \<and>
      list_all (judge_phase_event w t) new)"
  unfolding judge_phase_def do_time_def Let_def
  by (auto simp: judge_phase_event_def list_all_iff split: sum.split prod.split dest!: evaluate_turnsD)

lemma judge_phase_result:
  "judge_phase w t msgs d st = (Inr res, st') \<Longrightarrow>
     messages res = msgs \<and> message_duration res = d \<and>
     work_duration res = message_duration res + judge_duration res \<and>
     (\<exists>js st1. evaluate_turns w t msgs (snd (do_time w st)) = (Inr js, st1) \<and>
        parse_judgements w js = Inr (judgements res))"
  unfolding judge_phase_def
  by (auto split: sum.splits prod.splits)

lemma load_messagesD:
  "load_messages w t st = (r, st') \<Longrightarrow>
     objs st' = objs st \<and> next_addr st' = next_addr st \<and>
     (\<exists>new. trace st' = trace st @ new \<and> list_all is_read new) \<and>
     (case r of Inr doc \<Rightarrow> loaded st' = Some doc | Inl e \<Rightarrow> loaded st' = loaded st)"
  using load_messages_effect[of w t st] by (auto split: sum.splits)

lemma run_turnsD:
  "run_turns w t q st = (r, st') \<Longrightarrow>
     loaded st' = loaded st \<and> (\<forall>a < next_addr st. objs st' a = objs st a) \<and>
     next_addr st \<le> next_addr st' \<and>
     (\<exists>new. trace st' = trace st @ new \<and> list_all driver_only new)"
  using run_turns_effect[of w t q st] by simp

lemma run_turns_calls_data_manager:
  "\<exists>r rest. trace (snd (run_turns w t q st)) = trace st @ EvDataManager r # rest"
proof -
  have loop: "\<exists>new. trace (snd (run_turns_loop w t q quest 0 prompts ms s)) = trace s @ new"
    for quest prompts ms s
    using run_turns_loop_effect[of w t q quest 0 prompts ms s] by blast
  show ?thesis
    unfolding run_turns_def do_data_manager_def do_get_question_def do_read_def alloc_def Let_def
    using loop
    by (auto split: option.split sum.split prod.split dest!: run_turns_loopD)
qed

lemma is_read_driver_only: "is_read ev \<Longrightarrow> driver_only ev"
  by (cases ev) (auto simp: driver_only_def)

lemma obtain_transcriptD:
  "obtain_transcript w t q st = (r, st') \<Longrightarrow>
     (\<forall>a < next_addr st. objs st' a = objs st a) \<and> next_addr st \<le> next_addr st' \<and>
     (\<exists>new. trace st' = trace st @ new \<and> list_all driver_only new) \<and>
     (\<forall>msgs. r = Inr msgs \<longrightarrow> (\<exists>doc. loaded st' = Some doc))"
proof -
  assume ob: "obtain_transcript w t q st = (r, st')"
  obtain r1 st1 where l1: "load_messages w t st = (r1, st1)" by force
  from load_messagesD[OF l1] obtain n1 where e1: "objs st1 = objs st" "next_addr st1 = next_addr st"
    "trace st1 = trace st @ n1" "list_all is_read n1"
    "case r1 of Inr doc \<Rightarrow> loaded st1 = Some doc | Inl e \<Rightarrow> loaded st1 = loaded st" by auto
  have d1: "list_all driver_only n1" using e1(4) is_read_driver_only by (auto simp: list_all_iff)
  show ?thesis
  proof (cases r1)
    case (Inl e)
    then show ?thesis using ob l1 e1 d1 by (auto simp: obtain_transcript_def)
  next
    case (Inr doc)
    then have ld: "loaded st1 = Some doc" using e1(5) by simp
    show ?thesis
    proof (cases "truthy doc")
      case True
      have "load_messages w t st1 = (Inr doc, st1)" using ld by (rule load_messages_cached)
      then show ?thesis using ob l1 Inr True e1 d1 ld
        by (auto simp: obtain_transcript_def split: sum.splits)
    next
      case False
      then have rt: "run_turns w t q st1 = (r, st')" using ob l1 Inr by (simp add: obtain_transcript_def)
      from run_turnsD[OF rt] obtain n2 where e2: "loaded st' = loaded st1"
        "\<forall>a < next_addr st1. objs st' a = objs st1 a" "next_addr st1 \<le> next_addr st'"
        "trace st' = trace st1 @ n2" "list_all driver_only n2" by auto
      have "trace st' = trace st @ (n1 @ n2)" using e1 e2 by simp
      moreover have "list_all driver_only (n1 @ n2)" using d1 e2 by simp
      ultimately have "\<exists>new. trace st' = trace st @ new \<and> list_all driver_only new" by blast
      then show ?thesis using e1 e2 ld by auto
    qed
  qed
qed

lemma filter_none: "list_all (\<lambda>ev. \<not> Q ev) xs \<Longrightarrow> filter Q xs = []"
  by (induction xs) auto

lemma seq_index_nonempty: "seq_index ts i = Inr tr \<Longrightarrow> ts \<noteq> []"
  by (auto simp: seq_index_def split: if_splits)

lemma run_replay:
  assumes ld: "load_messages w t (snd (do_time w st)) = (Inr (PList ts), st2)"
    and idx: "seq_index ts i = Inr tr"
  shows "run w t (PInt i) st =
           judge_phase w t (LoadedItem (PInt i))
             (fst (do_time w st2) - fst (do_time w st)) (snd (do_time w st2))"
proof -
  let ?st3 = "snd (do_time w st2)"
  have l2: "loaded st2 = Some (PList ts)" using load_messagesD[OF ld] by simp
  then have l3: "loaded ?st3 = Some (PList ts)" by (simp add: do_time_def Let_def)
  have tr: "truthy (PList ts)" using seq_index_nonempty[OF idx] by simp
  have ob: "obtain_transcript w t (PInt i) (snd (do_time w st)) = (Inr (LoadedItem (PInt i)), st2)"
    using ld load_messages_cached[OF l2, of w t] tr idx by (simp add: obtain_transcript_def)
  have un: "unload_if_same_model w t ?st3 = (None, ?st3)"
    using load_messages_cached[OF l3, of w t] tr by (simp add: unload_if_same_model_def)
  show ?thesis using ob un by (simp add: run_def case_prod_unfold)
qed

text \<open>
  Claim C4. Let the property \<^verbatim>\<open>load_messages\<close>, read when \<^verbatim>\<open>run\<close> starts, give the list
  \<open>ts\<close> (loaded before, or loaded by this access), and let position \<open>i\<close> of it hold the
  transcript \<open>tr\<close> (so the list is not empty and the index is valid). Then \<^verbatim>\<open>run(i)\<close> makes
  no call of the conversation driver: no event of the question repository is added to the
  trace, and every event added is a read of the transcript file, a reading of the clock,
  a log line or a call of the judge. When \<^verbatim>\<open>run(i)\<close> returns a result, its \<^verbatim>\<open>messages\<close>
  field refers to position \<open>i\<close> of the loaded document, which still holds \<open>tr\<close>, and the
  loaded document is unchanged.
\<close>

theorem replay_returns_loaded_transcript:
  assumes ld: "fst (load_messages w t (snd (do_time w st))) = Inr (PList ts)"
    and idx: "seq_index ts i = Inr tr"
  shows "filter is_driver_event (new_events st (snd (run w t (PInt i) st))) = [] \<and>
         (\<forall>ev \<in> set (new_events st (snd (run w t (PInt i) st))).
            is_read ev \<or> judge_phase_event w t ev) \<and>
         (\<forall>res st'. run w t (PInt i) st = (Inr res, st') \<longrightarrow>
            messages res = LoadedItem (PInt i) \<and>
            deref st' (messages res) = Inr tr \<and>
            loaded st' = Some (PList ts))"
proof -
  let ?st1 = "snd (do_time w st)"
  define st2 where "st2 = snd (load_messages w t ?st1)"
  have lm: "load_messages w t ?st1 = (Inr (PList ts), st2)"
    using ld by (cases "load_messages w t ?st1") (simp add: st2_def)
  let ?st3 = "snd (do_time w st2)"
  let ?d = "fst (do_time w st2) - fst (do_time w st)"
  let ?r = "LoadedItem (PInt i)"
  note rr = run_replay[OF lm idx]
  obtain n1 where l2: "loaded st2 = Some (PList ts)" "trace st2 = trace ?st1 @ n1"
    "list_all is_read n1"
    using load_messagesD[OF lm] by auto
  have l3: "loaded ?st3 = Some (PList ts)" using l2 by (simp add: do_time_def Let_def)
  obtain a b where t3: "trace ?st3 = trace st @ [EvTime a] @ n1 @ [EvTime b]"
    using l2 by (simp add: do_time_def Let_def)
  obtain new where jp: "trace (snd (judge_phase w t ?r ?d ?st3)) = trace ?st3 @ new"
    "list_all (judge_phase_event w t) new"
    "loaded (snd (judge_phase w t ?r ?d ?st3)) = loaded ?st3"
    using judge_phase_effect[of w t ?r ?d ?st3] by auto
  have ne: "new_events st (snd (run w t (PInt i) st)) = [EvTime a] @ n1 @ [EvTime b] @ new"
    using rr jp(1) t3 by simp
  have all: "\<forall>ev \<in> set (new_events st (snd (run w t (PInt i) st))).
      is_read ev \<or> judge_phase_event w t ev"
    using ne jp(2) l2(3) by (auto simp: list_all_iff judge_phase_event_def)
  have nd: "is_read ev \<or> judge_phase_event w t ev \<Longrightarrow> \<not> is_driver_event ev" for ev
    using judge_event_kinds[of w t ev] by (cases ev) (auto simp: judge_phase_event_def)
  have drv: "filter is_driver_event (new_events st (snd (run w t (PInt i) st))) = []"
    using all nd by (intro filter_none) (auto simp: list_all_iff)
  have res: "messages res = ?r \<and> deref st' (messages res) = Inr tr \<and> loaded st' = Some (PList ts)"
    if run: "run w t (PInt i) st = (Inr res, st')" for res st'
  proof -
    have jr: "judge_phase w t ?r ?d ?st3 = (Inr res, st')" using run rr by simp
    have m: "messages res = ?r" using judge_phase_result[OF jr] by simp
    have l: "loaded st' = Some (PList ts)" using jp(3) jr l3 by simp
    show ?thesis using m l idx by (simp add: deref_def)
  qed
  show ?thesis using drv all res by blast
qed

lemma run_reaches_judge_phase:
  "run w t q st = (Inr res, st') \<Longrightarrow>
     \<exists>msgs d st4. judge_phase w t msgs d st4 = (Inr res, st')"
  unfolding run_def by (auto split: prod.splits sum.splits option.splits)

lemma parse_judgement_Inr:
  "parse_judgement w c = Inr v \<longleftrightarrow> (\<exists>s. c = PStr s \<and> json_loads w s = Inr v)"
  by (cases c) (auto simp: parse_judgement_def)

lemma parse_judgement_PStr: "parse_judgement w (PStr s) = json_loads w s"
  by (simp add: parse_judgement_def)

lemma parse_judgements_iff:
  "parse_judgements w js = Inr vs \<longleftrightarrow> list_all2 (parsed_by w) js vs"
proof (induction js arbitrary: vs)
  case Nil
  then show ?case by auto
next
  case (Cons j js)
  show ?case
  proof (cases vs)
    case Nil
    then show ?thesis by (auto split: sum.splits)
  next
    case (Cons v vs')
    then show ?thesis using Cons.IH[of vs']
      by (auto simp: parsed_by_def parse_judgement_Inr parse_judgement_PStr split: sum.splits)
  qed
qed

text \<open>
  Claim C7, amended. \<^verbatim>\<open>run\<close> parses the content of each judge response with
  \<^verbatim>\<open>json.loads\<close> and keeps whatever value that returns: the list of judgements is returned
  exactly when every response is parsed, each judgement of a result is the value parsed from
  the response at its position, and when a response cannot be parsed the second half of
  \<^verbatim>\<open>run\<close> raises, so no result is returned. The shape of the value is not checked. On the
  texts of the claim: the rated content gives a dictionary whose \<^verbatim>\<open>total_rating\<close> is the
  string \<^verbatim>\<open>70\<close>, \<^verbatim>\<open>not json\<close> is rejected, and \<^verbatim>\<open>[]\<close>, which is not an object with the
  three keys, is accepted.
\<close>

theorem judgements_are_parsed_contents:
  "(parse_judgements w js = Inr vs \<longleftrightarrow> list_all2 (parsed_by w) js vs) \<and>
   (\<forall>res st'. run w t q st = (Inr res, st') \<longrightarrow>
      (\<exists>msgs st1 rs st2. evaluate_turns w t msgs st1 = (Inr rs, st2) \<and>
         list_all2 (parsed_by w) rs (judgements res))) \<and>
   (\<forall>msgs d rs st2.
      evaluate_turns w t msgs (snd (do_time w st)) = (Inr rs, st2) \<and>
      (\<nexists>vs. list_all2 (parsed_by w) rs vs)
      \<longrightarrow> (\<exists>e. fst (judge_phase w t msgs d st) = Inl e)) \<and>
   py_json_loads rated_70 =
     Inr (PDict [(''evaluation'', PStr ''ok''), (''total_rating'', PStr ''70''),
                 (''feedback'', PStr ''none'')]) \<and>
   (\<exists>m. py_json_loads ''not json'' = Inl (JSONDecodeError m)) \<and>
   py_json_loads ''[]'' = Inr (PList [])"
proof -
  have a: "parse_judgements w js = Inr vs \<longleftrightarrow> list_all2 (parsed_by w) js vs"
    by (rule parse_judgements_iff)
  have b: "\<exists>msgs st1 rs st2. evaluate_turns w t msgs st1 = (Inr rs, st2) \<and>
         list_all2 (parsed_by w) rs (judgements res)"
    if run: "run w t q st = (Inr res, st')" for res st'
  proof -
    obtain msgs d st4 where "judge_phase w t msgs d st4 = (Inr res, st')"
      using run_reaches_judge_phase[OF run] by auto
    from judge_phase_result[OF this] obtain rs st1 where
      "evaluate_turns w t msgs (snd (do_time w st4)) = (Inr rs, st1)"
      "parse_judgements w rs = Inr (judgements res)" by auto
    then show ?thesis using parse_judgements_iff by blast
  qed
  have c: "\<exists>e. fst (judge_phase w t msgs d st) = Inl e"
    if "evaluate_turns w t msgs (snd (do_time w st)) = (Inr rs, st2) \<and>
        (\<nexists>vs. list_all2 (parsed_by w) rs vs)" for msgs d rs st2
  proof -
    have "\<forall>vs. parse_judgements w rs \<noteq> Inr vs" using that parse_judgements_iff by blast
    then obtain e where "parse_judgements w rs = Inl e" by (cases "parse_judgements w rs") auto
    then show ?thesis using that by (simp add: judge_phase_def case_prod_unfold)
  qed
  show ?thesis using a b c loads_rated_70 loads_not_json loads_empty_array by blast
qed

subsection \<open>The unload signal\<close>

lemma judge_phase_no_unload:
  "filter is_unload (new_events st (snd (judge_phase w t msgs d st))) = []"
proof -
  obtain new where n: "trace (snd (judge_phase w t msgs d st)) = trace st @ new"
    "list_all (judge_phase_event w t) new"
    using judge_phase_effect[of w t msgs d st] by auto
  have "\<not> is_unload ev" if "judge_phase_event w t ev" for ev
    using that judge_event_kinds[of w t ev] by (cases ev) (auto simp: judge_phase_event_def)
  then have "list_all (\<lambda>ev. \<not> is_unload ev) new" using n(2) by (auto simp: list_all_iff)
  then show ?thesis using n(1) by (simp add: filter_none)
qed

lemma driver_only_no_unload: "list_all driver_only new \<Longrightarrow> filter is_unload new = []"
  by (rule filter_none) (auto simp: list_all_iff driver_only_def)

text \<open>
  The unload signals of a run, by what the transcript phase does. They are: none when
  obtaining the transcript raises; otherwise exactly one, for the model under test, when
  the loaded document is false and the model under test is the judge model; and none when
  a transcript was loaded or the two models differ. When the signal is issued, nothing
  before the end of the first timer is an unload signal, and \<^verbatim>\<open>run\<close> is: the unload call
  in the state reached when the first timer stops, then (if the call returns) the second
  half of \<^verbatim>\<open>run\<close>, which times and runs \<^verbatim>\<open>evaluate_turns\<close> and issues no unload signal.
\<close>

lemma unload_events_of_run:
  "filter is_unload (new_events st (snd (run w t q st))) =
     (case obtain_transcript w t q (snd (do_time w st)) of
        (Inl e, st2) \<Rightarrow> []
      | (Inr msgs, st2) \<Rightarrow>
          (case loaded st2 of
             None \<Rightarrow> []
           | Some doc \<Rightarrow>
               if \<not> truthy doc \<and> model t = judge_model t
               then [EvUnload (model t) (client_unload w (trace (snd (do_time w st2))) (model t))]
               else [])) \<and>
   (\<forall>msgs st2 doc.
      obtain_transcript w t q (snd (do_time w st)) = (Inr msgs, st2) \<and> loaded st2 = Some doc \<and>
      \<not> truthy doc \<and> model t = judge_model t
      \<longrightarrow> filter is_unload (new_events st (snd (do_time w st2))) = [] \<and>
          run w t q st =
            (case do_unload w (snd (do_time w st2)) (model t) of
               (Some e, st4) \<Rightarrow> (Inl e, st4)
             | (None, st4) \<Rightarrow>
                 judge_phase w t msgs (fst (do_time w st2) - fst (do_time w st)) st4) \<and>
          (\<forall>d st4. filter is_unload (new_events st4 (snd (judge_phase w t msgs d st4))) = []))"
proof -
  let ?st1 = "snd (do_time w st)"
  obtain r st2 where ob: "obtain_transcript w t q ?st1 = (r, st2)" by force
  from obtain_transcriptD[OF ob] obtain n_ob where e_ob: "trace st2 = trace ?st1 @ n_ob"
    "list_all driver_only n_ob" "\<forall>msgs. r = Inr msgs \<longrightarrow> (\<exists>doc. loaded st2 = Some doc)" by auto
  obtain t0 where t1: "trace ?st1 = trace st @ [EvTime t0]" by (simp add: do_time_def Let_def)
  let ?st3 = "snd (do_time w st2)"
  obtain tm where t3: "trace ?st3 = trace st2 @ [EvTime tm]" "loaded ?st3 = loaded st2"
    by (simp add: do_time_def Let_def)
  have pre: "filter is_unload (new_events st ?st3) = []"
    using t1 t3 e_ob driver_only_no_unload[OF e_ob(2)] by simp
  have pre2: "filter is_unload (new_events st st2) = []"
    using t1 e_ob driver_only_no_unload[OF e_ob(2)] by simp
  have first: "filter is_unload (new_events st (snd (run w t q st))) =
     (case (r, st2) of
        (Inl e, st2) \<Rightarrow> []
      | (Inr msgs, st2) \<Rightarrow>
          (case loaded st2 of
             None \<Rightarrow> []
           | Some doc \<Rightarrow>
               if \<not> truthy doc \<and> model t = judge_model t
               then [EvUnload (model t) (client_unload w (trace (snd (do_time w st2))) (model t))]
               else []))"
  proof (cases r)
    case (Inl e)
    then have "run w t q st = (Inl e, st2)" using ob by (simp add: run_def case_prod_unfold)
    then show ?thesis using Inl pre2 by simp
  next
    case (Inr msgs)
    then obtain doc where doc: "loaded st2 = Some doc" using e_ob(3) by auto
    have lm: "load_messages w t ?st3 = (Inr doc, ?st3)"
      using doc t3(2) by (intro load_messages_cached) simp
    show ?thesis
    proof (cases "\<not> truthy doc \<and> model t = judge_model t")
      case False
      then have un: "unload_if_same_model w t ?st3 = (None, ?st3)"
        using lm by (auto simp: unload_if_same_model_def)
      have run: "run w t q st = judge_phase w t msgs (fst (do_time w st2) - fst (do_time w st)) ?st3"
        using ob Inr un by (simp add: run_def case_prod_unfold)
      obtain nj where nj: "trace (snd (run w t q st)) = trace ?st3 @ nj"
        "filter is_unload nj = []"
        using judge_phase_effect[of w t msgs "fst (do_time w st2) - fst (do_time w st)" ?st3]
          judge_phase_no_unload[of ?st3 w t msgs "fst (do_time w st2) - fst (do_time w st)"] run
        by auto
      have "new_events st (snd (run w t q st)) = new_events st ?st3 @ nj"
        using nj(1) t1 t3 e_ob by simp
      then show ?thesis using pre nj(2) Inr doc False by auto
    next
      case True
      let ?ru = "client_unload w (trace ?st3) (model t)"
      let ?st4 = "record_event ?st3 (EvUnload (model t) ?ru)"
      have un: "unload_if_same_model w t ?st3 = (?ru, ?st4)"
        using lm True by (simp add: unload_if_same_model_def do_unload_def Let_def)
      have ne4: "new_events st ?st4 = new_events st ?st3 @ [EvUnload (model t) ?ru]"
        using t1 t3 e_ob by simp
      show ?thesis
      proof (cases ?ru)
        case (Some e)
        then have "run w t q st = (Inl e, ?st4)"
          using ob Inr un by (simp add: run_def case_prod_unfold)
        then show ?thesis using ne4 pre Inr doc True by simp
      next
        case None
        then have run: "run w t q st =
            judge_phase w t msgs (fst (do_time w st2) - fst (do_time w st)) ?st4"
          using ob Inr un by (simp add: run_def case_prod_unfold)
        obtain nj where nj: "trace (snd (run w t q st)) = trace ?st4 @ nj"
          "filter is_unload nj = []"
          using judge_phase_effect[of w t msgs "fst (do_time w st2) - fst (do_time w st)" ?st4]
            judge_phase_no_unload[of ?st4 w t msgs "fst (do_time w st2) - fst (do_time w st)"] run
          by auto
        have "new_events st (snd (run w t q st)) =
            new_events st ?st3 @ [EvUnload (model t) ?ru] @ nj"
          using nj(1) t1 t3 e_ob by simp
        then show ?thesis using pre nj(2) Inr doc True by simp
      qed
    qed
  qed
  have second: "filter is_unload (new_events st (snd (do_time w st2')) ) = [] \<and>
          run w t q st =
            (case do_unload w (snd (do_time w st2')) (model t) of
               (Some e, st4) \<Rightarrow> (Inl e, st4)
             | (None, st4) \<Rightarrow>
                 judge_phase w t msgs (fst (do_time w st2') - fst (do_time w st)) st4) \<and>
          (\<forall>d st4. filter is_unload (new_events st4 (snd (judge_phase w t msgs d st4))) = [])"
    if h: "obtain_transcript w t q ?st1 = (Inr msgs, st2') \<and> loaded st2' = Some doc \<and>
      \<not> truthy doc \<and> model t = judge_model t" for msgs st2' doc
  proof -
    have eq: "r = Inr msgs" "st2' = st2" using h ob by simp_all
    have lm: "load_messages w t ?st3 = (Inr doc, ?st3)"
      using h eq t3(2) by (intro load_messages_cached) simp
    have un: "unload_if_same_model w t ?st3 = do_unload w ?st3 (model t)"
      using lm h by (simp add: unload_if_same_model_def)
    have "run w t q st =
            (case do_unload w ?st3 (model t) of
               (Some e, st4) \<Rightarrow> (Inl e, st4)
             | (None, st4) \<Rightarrow>
                 judge_phase w t msgs (fst (do_time w st2) - fst (do_time w st)) st4)"
      using ob eq un by (simp add: run_def case_prod_unfold split: option.splits)
    then show ?thesis using pre judge_phase_no_unload unfolding eq(2) by simp
  qed
  have first': "filter is_unload (new_events st (snd (run w t q st))) =
     (case obtain_transcript w t q ?st1 of
        (Inl e, st2) \<Rightarrow> []
      | (Inr msgs, st2) \<Rightarrow>
          (case loaded st2 of
             None \<Rightarrow> []
           | Some doc \<Rightarrow>
               if \<not> truthy doc \<and> model t = judge_model t
               then [EvUnload (model t) (client_unload w (trace (snd (do_time w st2))) (model t))]
               else []))"
    using first unfolding ob .
  show ?thesis
  proof (rule conjI)
    show "filter is_unload (new_events st (snd (run w t q st))) =
     (case obtain_transcript w t q ?st1 of
        (Inl e, st2) \<Rightarrow> []
      | (Inr msgs, st2) \<Rightarrow>
          (case loaded st2 of
             None \<Rightarrow> []
           | Some doc \<Rightarrow>
               if \<not> truthy doc \<and> model t = judge_model t
               then [EvUnload (model t) (client_unload w (trace (snd (do_time w st2))) (model t))]
               else []))"
      by (rule first')
  next
    show "\<forall>msgs st2 doc.
      obtain_transcript w t q ?st1 = (Inr msgs, st2) \<and> loaded st2 = Some doc \<and>
      \<not> truthy doc \<and> model t = judge_model t
      \<longrightarrow> filter is_unload (new_events st (snd (do_time w st2))) = [] \<and>
          run w t q st =
            (case do_unload w (snd (do_time w st2)) (model t) of
               (Some e, st4) \<Rightarrow> (Inl e, st4)
             | (None, st4) \<Rightarrow>
                 judge_phase w t msgs (fst (do_time w st2) - fst (do_time w st)) st4) \<and>
          (\<forall>d st4. filter is_unload (new_events st4 (snd (judge_phase w t msgs d st4))) = [])"
      using second by blast
  qed
qed

subsection \<open>Concrete runs\<close>

lemma check_config_loads:
  "check_config (demo_world reply) replay_tester initial_state = (None, loaded_state)"
proof -
  have "str_contains ''Q: {question} A: {answer}'' ''{question}''"
    "str_contains ''Q: {question} A: {answer}'' ''{answer}''" by simp_all
  then show ?thesis
    using demo_first_load[of initial_state _ reply]
    by (simp add: check_config_def check_marker_def loaded_state_def initial_state_def)
qed

lemma demo_evaluate_hi:
  assumes "deref st r = Inr (PList msgs)" and "judged_part msgs = Inr one_turn"
  shows "fst (evaluate_turns (demo_world reply) replay_tester r st) = Inr [chat_reply reply] \<and>
         trace (snd (evaluate_turns (demo_world reply) replay_tester r st)) =
           trace st @ judge_events_hi reply"
  using evaluate_turns_list[OF assms, of "demo_world reply" replay_tester]
  by (simp add: one_turn_def demo_judge_pairs_hi loop_outcome_def del: judge_pairs.simps)

lemma demo_parse_reply:
  "parse_judgements (demo_world reply) [chat_reply reply] =
     (case py_json_loads reply of Inl e \<Rightarrow> Inl e | Inr v \<Rightarrow> Inr [v])"
  by (simp add: chat_reply_def parse_judgement_def demo_world_def split: sum.splits)

lemma judge_phase_fst:
  "fst (judge_phase w t msgs d st) =
     (case fst (evaluate_turns w t msgs (snd (do_time w st))) of
        Inl e \<Rightarrow> Inl e
      | Inr js \<Rightarrow>
          (case parse_judgements w js of
             Inl e \<Rightarrow> Inl e
           | Inr contents \<Rightarrow>
               Inr \<lparr> messages = msgs, judgements = contents, message_duration = d,
                     judge_duration =
                       fst (do_time w (snd (evaluate_turns w t msgs (snd (do_time w st))))) -
                       fst (do_time w st),
                     work_duration = d +
                       (fst (do_time w (snd (evaluate_turns w t msgs (snd (do_time w st))))) -
                        fst (do_time w st)) \<rparr>))"
  by (simp add: judge_phase_def case_prod_unfold split: sum.splits)

lemma do_time_simps:
  "trace (snd (do_time w st)) = trace st @ [EvTime (time_time w (trace st))]"
  "loaded (snd (do_time w st)) = loaded st"
  "objs (snd (do_time w st)) = objs st"
  "next_addr (snd (do_time w st)) = next_addr st"
  "fst (do_time w st) = time_time w (trace st)"
  by (simp_all add: do_time_def Let_def)

lemma deref_do_time: "deref (snd (do_time w st)) r = deref st r"
  by (cases r) (simp_all add: deref_def do_time_simps)

lemma demo_time: "time_time (demo_world reply) h = real (length h)"
  by (simp add: demo_world_def)

lemma demo_run_replay:
  "fst (run (demo_world reply) replay_tester (PInt 0) loaded_state) =
     (case py_json_loads reply of
        Inl e \<Rightarrow> Inl e
      | Inr v \<Rightarrow> Inr \<lparr> messages = LoadedItem (PInt 0), judgements = [v],
                       message_duration = 1, judge_duration = 5, work_duration = 6 \<rparr>)"
proof -
  let ?w = "demo_world reply"
  have ld: "loaded loaded_state = Some (PList [PList one_turn])" by (simp add: loaded_state_def)
  have idx: "seq_index [PList one_turn] 0 = Inr (PList one_turn)" by (simp add: seq_index_def)
  have lm: "load_messages ?w replay_tester (snd (do_time ?w loaded_state)) =
      (Inr (PList [PList one_turn]), snd (do_time ?w loaded_state))"
    using ld by (intro load_messages_cached) (simp add: do_time_simps)
  note rr = run_replay[OF lm idx]
  define st3 where "st3 = snd (do_time ?w (snd (do_time ?w loaded_state)))"
  define st4 where "st4 = snd (do_time ?w st3)"
  define E where "E = evaluate_turns ?w replay_tester (LoadedItem (PInt 0)) st4"
  have l0: "length (trace loaded_state) = 1" by (simp add: loaded_state_def)
  have l3: "length (trace st3) = 3" using l0 by (simp add: st3_def do_time_simps)
  have l4: "length (trace st4) = 4" using l3 by (simp add: st4_def do_time_simps)
  have "deref st4 (LoadedItem (PInt 0)) = deref loaded_state (LoadedItem (PInt 0))"
    by (simp add: st4_def st3_def deref_do_time)
  then have d: "deref st4 (LoadedItem (PInt 0)) = Inr (PList one_turn)"
    using ld idx by (simp add: deref_def)
  have jp: "judged_part one_turn = Inr one_turn" by (simp add: one_turn_def user_msg_def)
  from demo_evaluate_hi[OF d jp, of reply]
  have fE: "fst E = Inr [chat_reply reply]" and tE: "trace (snd E) = trace st4 @ judge_events_hi reply"
    by (simp_all add: E_def)
  have lE: "length (trace (snd E)) = 8" using tE l4 by (simp add: judge_events_hi_def)
  have dur: "fst (do_time ?w (snd (do_time ?w loaded_state))) - fst (do_time ?w loaded_state) = 1"
    using l0 by (simp add: do_time_simps demo_time)
  have "fst (run ?w replay_tester (PInt 0) loaded_state) =
      fst (judge_phase ?w replay_tester (LoadedItem (PInt 0)) 1 st3)"
    using rr dur by (simp add: st3_def)
  also have "\<dots> = (case py_json_loads reply of
        Inl e \<Rightarrow> Inl e
      | Inr v \<Rightarrow> Inr \<lparr> messages = LoadedItem (PInt 0), judgements = [v],
                       message_duration = 1, judge_duration = 5, work_duration = 6 \<rparr>)"
    unfolding judge_phase_fst st4_def[symmetric] E_def[symmetric]
    using fE lE l3
    by (simp add: demo_parse_reply do_time_simps demo_time del: parse_judgements.simps
        split: sum.splits)
  finally show ?thesis .
qed

text \<open>
  Claim C4 on the transcripts file of the specification: \<^verbatim>\<open>run(0)\<close> returns a result whose
  messages are the loaded transcript, and the question repository is not called.
\<close>

theorem replay_returns_loaded_transcript_witness:
  "fst (load_messages (demo_world rated_70) replay_tester
          (snd (do_time (demo_world rated_70) loaded_state))) = Inr (PList [PList one_turn]) \<and>
   seq_index [PList one_turn] 0 = Inr (PList one_turn) \<and>
   (\<exists>res st'. run (demo_world rated_70) replay_tester (PInt 0) loaded_state = (Inr res, st') \<and>
      messages res = LoadedItem (PInt 0) \<and>
      deref st' (messages res) = Inr (PList one_turn) \<and>
      loaded st' = Some (PList [PList one_turn])) \<and>
   filter is_driver_event
     (new_events loaded_state (snd (run (demo_world rated_70) replay_tester (PInt 0) loaded_state))) = []"
proof -
  let ?w = "demo_world rated_70"
  let ?run = "run ?w replay_tester (PInt 0) loaded_state"
  have ld: "loaded loaded_state = Some (PList [PList one_turn])" by (simp add: loaded_state_def)
  have idx: "seq_index [PList one_turn] 0 = Inr (PList one_turn)" by (simp add: seq_index_def)
  have lm: "fst (load_messages ?w replay_tester (snd (do_time ?w loaded_state))) =
      Inr (PList [PList one_turn])"
    using load_messages_cached[of "snd (do_time ?w loaded_state)" "PList [PList one_turn]" ?w replay_tester] ld
    by (simp add: do_time_simps)
  note th = replay_returns_loaded_transcript[OF lm idx]
  obtain res where "fst ?run = Inr res"
    using demo_run_replay[of rated_70] by (simp add: loads_rated_70)
  then have run: "?run = (Inr res, snd ?run)" by (cases ?run) simp
  from th run have "messages res = LoadedItem (PInt 0) \<and>
      deref (snd ?run) (messages res) = Inr (PList one_turn) \<and>
      loaded (snd ?run) = Some (PList [PList one_turn])" by blast
  then show ?thesis using lm idx run th by blast
qed

text \<open>
  Claim C7 on two runs: the judge that answers with the rated content gives a judgement
  whose \<^verbatim>\<open>total_rating\<close> is the string \<^verbatim>\<open>70\<close>; with the judge that answers \<^verbatim>\<open>not json\<close>
  the run raises the decoding error.
\<close>

theorem judgements_are_parsed_contents_witness:
  "(\<exists>res st'. run (demo_world rated_70) replay_tester (PInt 0) loaded_state = (Inr res, st') \<and>
      judgements res =
        [PDict [(''evaluation'', PStr ''ok''), (''total_rating'', PStr ''70''),
                (''feedback'', PStr ''none'')]] \<and>
      (\<exists>msgs st1 rs st2.
         evaluate_turns (demo_world rated_70) replay_tester msgs st1 = (Inr rs, st2) \<and>
         list_all2 (parsed_by (demo_world rated_70)) rs (judgements res))) \<and>
   fst (run (demo_world ''not json'') replay_tester (PInt 0) loaded_state) =
     Inl (JSONDecodeError ''invalid JSON'')"
proof -
  let ?w = "demo_world rated_70"
  let ?run = "run ?w replay_tester (PInt 0) loaded_state"
  note th = judgements_are_parsed_contents[of ?w "[]" "[]" replay_tester "PInt 0" loaded_state]
  obtain res where res: "fst ?run = Inr res" "judgements res =
        [PDict [(''evaluation'', PStr ''ok''), (''total_rating'', PStr ''70''),
                (''feedback'', PStr ''none'')]]"
    using demo_run_replay[of rated_70] by (simp add: loads_rated_70)
  then have run: "?run = (Inr res, snd ?run)" by (cases ?run) simp
  from th run have "\<exists>msgs st1 rs st2.
         evaluate_turns ?w replay_tester msgs st1 = (Inr rs, st2) \<and>
         list_all2 (parsed_by ?w) rs (judgements res)" by blast
  moreover have "fst (run (demo_world ''not json'') replay_tester (PInt 0) loaded_state) =
     Inl (JSONDecodeError ''invalid JSON'')"
    using demo_run_replay[of "''not json''"] by (simp add: loads_not_json)
  ultimately show ?thesis using run res(2) by blast
qed

text \<open>
  Claim C7 as stated fails: the judge answers \<^verbatim>\<open>[]\<close>, which is not an object with the
  keys \<^verbatim>\<open>evaluation\<close>, \<^verbatim>\<open>total_rating\<close> and \<^verbatim>\<open>feedback\<close>; parsing does not fail and \<^verbatim>\<open>run\<close>
  returns a result whose only judgement is the empty list.
\<close>

theorem unchecked_shape_counterexample:
  "\<exists>res st'. run (demo_world ''[]'') replay_tester (PInt 0) loaded_state = (Inr res, st') \<and>
     judgements res = [PList []]"
proof -
  let ?run = "run (demo_world ''[]'') replay_tester (PInt 0) loaded_state"
  obtain res where "fst ?run = Inr res" "judgements res = [PList []]"
    using demo_run_replay[of "''[]''"] by (simp add: loads_empty_array)
  then have "?run = (Inr res, snd ?run) \<and> judgements res = [PList []]" by (cases ?run) simp
  then show ?thesis by blast
qed

lemma obtain_replay:
  assumes "loaded st = Some (PList ts)" and "seq_index ts i = Inr tr"
  shows "obtain_transcript w t (PInt i) st = (Inr (LoadedItem (PInt i)), st)"
  using load_messages_cached[OF assms(1), of w t] seq_index_nonempty[OF assms(2)] assms(2)
  by (simp add: obtain_transcript_def)

lemma demo_load_empty:
  "load_messages (demo_world reply) empty_source_tester (snd (do_time (demo_world reply) initial_state)) =
     (Inr (PList []),
      initial_state\<lparr>trace := [EvTime 0, EvRead (PyFile ''empty.json'') (Inr ''[]'')],
                     loaded := Some (PList [])\<rparr>)"
  by (simp add: load_messages_def json_load_def do_read_def do_time_def Let_def demo_world_def
      file_text_def record_event_def initial_state_def empty_source_tester_def init_def
      loads_empty_array)

lemma demo_obtain_live:
  "\<exists>msgs st2.
     obtain_transcript (demo_world reply) empty_source_tester (PStr ''q1'')
       (snd (do_time (demo_world reply) initial_state)) = (Inr msgs, st2) \<and>
     loaded st2 = Some (PList [])"
  unfolding obtain_transcript_def demo_load_empty
  by (simp add: run_turns_def run_turn_def do_data_manager_def do_get_question_def do_chat_def
      do_log_def alloc_def record_event_def Let_def demo_world_def empty_source_tester_def init_def
      slice_to_def chat_reply_def)

text \<open>
  Two runs: with a transcript source that holds an empty array and the judge model equal
  to the model under test, one unload signal; in the replay run, none.
\<close>

lemma unload_events_of_concrete_runs:
  "(\<exists>msgs st2.
      obtain_transcript (demo_world rated_70) empty_source_tester (PStr ''q1'')
        (snd (do_time (demo_world rated_70) initial_state)) = (Inr msgs, st2) \<and>
      loaded st2 = Some (PList []) \<and> \<not> truthy (PList []) \<and>
      model empty_source_tester = judge_model empty_source_tester) \<and>
   filter is_unload
     (new_events initial_state
        (snd (run (demo_world rated_70) empty_source_tester (PStr ''q1'') initial_state))) =
     [EvUnload ''llama3'' None] \<and>
   filter is_unload
     (new_events loaded_state
        (snd (run (demo_world rated_70) replay_tester (PInt 0) loaded_state))) = []"
proof -
  let ?w = "demo_world rated_70"
  obtain msgs st2 where ob:
    "obtain_transcript ?w empty_source_tester (PStr ''q1'') (snd (do_time ?w initial_state)) =
       (Inr msgs, st2)" "loaded st2 = Some (PList [])"
    using demo_obtain_live[of rated_70] by auto
  have same: "model empty_source_tester = judge_model empty_source_tester"
    by (simp add: empty_source_tester_def init_def)
  note th1 = unload_events_of_run[of initial_state ?w empty_source_tester "PStr ''q1''"]
  have one: "filter is_unload
     (new_events initial_state (snd (run ?w empty_source_tester (PStr ''q1'') initial_state))) =
     [EvUnload ''llama3'' None]"
    using th1[THEN conjunct1] ob same
    by (simp add: demo_world_def empty_source_tester_def init_def)
  have ld: "loaded (snd (do_time ?w loaded_state)) = Some (PList [PList one_turn])"
    by (simp add: do_time_simps loaded_state_def)
  have idx: "seq_index [PList one_turn] 0 = Inr (PList one_turn)" by (simp add: seq_index_def)
  note th2 = unload_events_of_run[of loaded_state ?w replay_tester "PInt 0"]
  have none: "filter is_unload
     (new_events loaded_state (snd (run ?w replay_tester (PInt 0) loaded_state))) = []"
    using th2[THEN conjunct1] obtain_replay[OF ld idx, of ?w replay_tester] ld by simp
  show ?thesis using ob same one none by auto
qed

subsection \<open>A tester without a transcript source\<close>

lemma load_messages_no_source:
  "load_messages_file t = None \<Longrightarrow> loaded st = None \<Longrightarrow> load_messages w t st = (Inl AttributeError, st)"
  by (simp add: load_messages_def json_load_def)

text \<open>
  Claim C1. The claim says that a tester without a transcript source obtains the
  transcript from \<^verbatim>\<open>run_turns\<close>. The code does not: the first thing \<^verbatim>\<open>run\<close> does after
  reading the clock is to read the property \<^verbatim>\<open>load_messages\<close>, which calls
  \<^verbatim>\<open>json.load(None)\<close>. For every tester whose \<^verbatim>\<open>load_messages_file\<close> is \<^verbatim>\<open>None\<close> and that
  has loaded nothing yet, \<^verbatim>\<open>run\<close> raises \<^verbatim>\<open>AttributeError\<close>, and the only call it has made
  is the one to the clock: \<^verbatim>\<open>run_turns\<close> is never reached.
\<close>

theorem run_without_transcript_source_raises:
  assumes "load_messages_file t = None" and "loaded st = None"
  shows "run w t question_id st =
           (Inl AttributeError, record_event st (EvTime (time_time w (trace st))))"
proof -
  let ?st1 = "record_event st (EvTime (time_time w (trace st)))"
  have t: "do_time w st = (time_time w (trace st), ?st1)"
    by (simp add: do_time_def Let_def)
  have "loaded ?st1 = None" using assms(2) by (simp add: record_event_def)
  then have "load_messages w t ?st1 = (Inl AttributeError, ?st1)"
    using assms(1) by (rule load_messages_no_source[rotated])
  then have "obtain_transcript w t question_id ?st1 = (Inl AttributeError, ?st1)"
    by (simp add: obtain_transcript_def)
  then show ?thesis by (simp add: run_def t)
qed

theorem run_without_transcript_source_raises_witness:
  "load_messages_file live_tester = None \<and> loaded initial_state = None \<and>
   run (demo_world rated_70) live_tester (PStr ''q1'') initial_state =
     (Inl AttributeError, initial_state\<lparr>trace := [EvTime 0]\<rparr>)"
  using run_without_transcript_source_raises[of live_tester initial_state "demo_world rated_70" "PStr ''q1''"]
  by (simp add: live_tester_def init_def initial_state_def demo_world_def record_event_def)

subsection \<open>The unload signal without a transcript source\<close>

text \<open>
  Claim C8. The claim says that \<^verbatim>\<open>run\<close> issues the unload signal exactly once, between
  obtaining the transcript and \<^verbatim>\<open>evaluate_turns\<close>, whenever no transcript was loaded and the
  model under test is the judge model. The code does not do so for a tester without a
  transcript source, the configuration in which the conversation is driven live: for every
  tester whose \<^verbatim>\<open>load_messages_file\<close> is \<^verbatim>\<open>None\<close> and that has loaded nothing yet,
  \<^verbatim>\<open>run\<close> raises \<^verbatim>\<open>AttributeError\<close> when it reads the property \<^verbatim>\<open>load_messages\<close>, before
  the transcript is obtained and before the two models are compared, and it issues no
  unload signal, whatever the two models are. The defect is the one of claim C1.
\<close>

theorem no_unload_without_transcript_source:
  assumes "load_messages_file t = None" and "loaded st = None"
  shows "fst (run w t question_id st) = Inl AttributeError \<and>
         filter is_unload (new_events st (snd (run w t question_id st))) = []"
proof -
  let ?st1 = "snd (do_time w st)"
  have "loaded ?st1 = None" using assms(2) by (simp add: do_time_simps)
  then have "load_messages w t ?st1 = (Inl AttributeError, ?st1)"
    using assms(1) by (rule load_messages_no_source[rotated])
  then have "obtain_transcript w t question_id ?st1 = (Inl AttributeError, ?st1)"
    by (simp add: obtain_transcript_def)
  then have r: "run w t question_id st = (Inl AttributeError, ?st1)"
    by (simp add: run_def case_prod_unfold)
  have "new_events st ?st1 = [EvTime (time_time w (trace st))]"
    by (simp add: do_time_simps)
  then show ?thesis using r by simp
qed

text \<open>
  Claim C8 on the tester without a transcript source, whose judge model is the model under
  test: nothing was loaded, the two models are equal, and no unload signal is issued.
\<close>

theorem no_unload_without_transcript_source_witness:
  "load_messages_file live_tester = None \<and> loaded initial_state = None \<and>
   model live_tester = judge_model live_tester \<and>
   fst (run (demo_world rated_70) live_tester (PStr ''q1'') initial_state) = Inl AttributeError \<and>
   filter is_unload
     (new_events initial_state
        (snd (run (demo_world rated_70) live_tester (PStr ''q1'') initial_state))) = []"
  using no_unload_without_transcript_source[of live_tester initial_state "demo_world rated_70" "PStr ''q1''"]
  by (simp add: live_tester_def init_def initial_state_def)

end
